theory Spec2Isabelle
  imports
    Complex_Main
    "HOL-Library.List_Lexorder"
    "HOL-Library.Char_ord"
begin

section \<open>Data model\<close>

subsection \<open>Decoded JSON values\<close>

text \<open>
  The API resources are the values \<^verbatim>\<open>json.loads\<close> returns. A JSON object is an association
  list in insertion order (the keys of a decoded object are unique); JSON numbers are
  integers (no resource field the program inspects is a float).
\<close>

datatype json =
    JNull
  | JBool bool
  | JInt int
  | JStr string
  | JList "json list"
  | JDict "(string \<times> json) list"

text \<open>Python truthiness of a decoded value (\<^verbatim>\<open>if r.get('fork')\<close>).\<close>

fun truthy :: "json \<Rightarrow> bool" where
  "truthy JNull = False"
| "truthy (JBool b) = b"
| "truthy (JInt n) = (n \<noteq> 0)"
| "truthy (JStr s) = (s \<noteq> [])"
| "truthy (JList xs) = (xs \<noteq> [])"
| "truthy (JDict d) = (d \<noteq> [])"

text \<open>Truthiness of an optional command-line string (\<^verbatim>\<open>None\<close> and \<^verbatim>\<open>''\<close> are false).\<close>

definition given :: "string option \<Rightarrow> bool" where
  "given x = (case x of None \<Rightarrow> False | Some v \<Rightarrow> v \<noteq> [])"

subsection \<open>Exceptions\<close>

datatype exc =
    SystemExit
  | URLError
  | SocketError
  | KeyError
  | TypeError
  | AttributeError
  | IndexError
  | OSError
  | CalledProcessError
  | RegexError

subsection \<open>Command-line arguments\<close>

text \<open>
  The \<^verbatim>\<open>argparse\<close> namespace, with the fields the modelled functions read. The namespace is
  a shared mutable object (\<^verbatim>\<open>get_auth\<close> overwrites \<^verbatim>\<open>token\<close> and \<^verbatim>\<open>password\<close>,
  \<^verbatim>\<open>backup_repositories\<close> sets \<^verbatim>\<open>since\<close>), so it is part of the program state below.
\<close>

record args =
  user :: string
  username :: "string option"
  password :: "string option"
  token :: "string option"
  as_app :: bool
  osx_keychain_item_name :: "string option"
  osx_keychain_item_account :: "string option"
  throttle_limit :: int
  throttle_pause :: real
  incremental :: bool
  since :: "string option"
  skip_existing :: bool
  include_everything :: bool
  include_pulls :: bool
  include_pull_details :: bool
  include_pull_comments :: bool
  include_pull_commits :: bool
  include_issue_comments :: bool
  include_issue_events :: bool
  fork :: bool
  private_arg :: bool
  languages :: "string list option"
  name_regex :: "string option"
  github_host :: "string option"
  prefer_ssh :: bool
  bare_clone :: bool
  lfs_clone :: bool
  include_gists :: bool
  include_starred_gists :: bool
  include_repository :: bool
  include_wiki :: bool
  include_issues :: bool
  include_milestones :: bool
  include_labels :: bool
  include_hooks :: bool
  include_releases :: bool
  include_assets :: bool

subsection \<open>Requests, responses and the outside world\<close>

record request =
  req_url :: string
  req_query :: "(string \<times> json) list"
  req_headers :: "(string \<times> string) list"

text \<open>
  A response, or the \<^verbatim>\<open>HTTPError\<close> that "behaves like a response". The two rate-limit
  headers are kept as the integers \<^verbatim>\<open>int(...)\<close> reads from them (\<^verbatim>\<open>None\<close>: header absent);
  \<^verbatim>\<open>body\<close> is the decoded JSON body.
\<close>

record response =
  code :: int
  reason :: string
  x_ratelimit_remaining :: "int option"
  x_ratelimit_reset :: "int option"
  body :: json

text \<open>
  What one call of \<^verbatim>\<open>urlopen\<close> does. The reason of a \<^verbatim>\<open>URLError\<close> and the
  \<^verbatim>\<open>strerror\<close> of a socket error are \<^verbatim>\<open>None\<close> when they are not a \<^verbatim>\<open>str\<close>.
\<close>

datatype http_result =
    Returns response
  | Raises_HTTPError response
  | Raises_URLError "string option"
  | Raises_socket_error "string option"

text \<open>What is written to a file: text, or a value through \<^verbatim>\<open>json_dump\<close>.\<close>

datatype content = Text string | Json json

text \<open>What the opener of \<^verbatim>\<open>download_file\<close> does for a URL.\<close>

datatype download_result =
    Downloaded string
  | Download_HTTPError
  | Download_URLError
  | Download_socket_error

text \<open>
  The trace of effects: requests, sleeps, directories made, files written, the shell command
  of \<^verbatim>\<open>subprocess.call\<close>, the commands of \<^verbatim>\<open>subprocess.check_output\<close> and of
  \<^verbatim>\<open>logging_subprocess\<close> with their working directory.
\<close>

datatype event =
    Urlopen request
  | Sleep real
  | Makedirs string
  | Write string content
  | Download string string
  | Call_shell string
  | Check_output "string list" string
  | Popen "string list" "string option"

text \<open>
  The environment the program cannot control: the server answers the \<open>n\<close>-th call of
  \<^verbatim>\<open>urlopen\<close> (counted from 0) as a function of \<open>n\<close> and of the request. The library
  functions whose value only passes through are parameters as well:
  \<^item> \<^verbatim>\<open>py_str\<close> is \<^verbatim>\<open>str()\<close> of a decoded value that is not a string, as
    \<^verbatim>\<open>format\<close> interpolates it;
  \<^item> \<^verbatim>\<open>dumps\<close> is the text \<^verbatim>\<open>json.dump\<close> writes for a value;
  \<^item> \<^verbatim>\<open>wiki_url\<close> is \<^verbatim>\<open>repo_url.replace('.git', '.wiki.git')\<close>;
  \<^item> \<^verbatim>\<open>opener\<close> is what the opener of \<^verbatim>\<open>download_file\<close> does for a URL;
  \<^item> \<^verbatim>\<open>re_compile\<close> is \<^verbatim>\<open>re.compile\<close>: \<open>None\<close> when the pattern is rejected, and
    otherwise the test \<^verbatim>\<open>match\<close> makes;
  \<^item> \<^verbatim>\<open>gist_ssh_url\<close> is the pair of \<^verbatim>\<open>re.sub\<close> that rewrites the pull URL of a gist;
  \<^item> \<^verbatim>\<open>localtime\<close> is \<^verbatim>\<open>time.strftime('%Y-%m-%dT%H:%M:%SZ', time.localtime())\<close> at a
    given clock;
  \<^item> \<^verbatim>\<open>rev_parse\<close> is the output of \<^verbatim>\<open>git rev-parse --is-bare-repository\<close> in a directory
    (\<open>None\<close>: the command fails), \<^verbatim>\<open>ls_remote\<close> the exit code of \<^verbatim>\<open>git ls-remote\<close> for
    a URL, \<^verbatim>\<open>remote_show\<close> the lines \<^verbatim>\<open>git remote show\<close> prints in a directory.
\<close>

record env =
  srv :: "nat \<Rightarrow> request \<Rightarrow> http_result"
  b64encode :: "string \<Rightarrow> string"
  urlquote :: "string \<Rightarrow> string"
  platform_system :: string
  keychain :: "string \<Rightarrow> string \<Rightarrow> string option"
  token_file :: "string \<Rightarrow> string option"
  getpass :: string
  py_str :: "json \<Rightarrow> string"
  dumps :: "json \<Rightarrow> string"
  wiki_url :: "string \<Rightarrow> string"
  re_compile :: "string \<Rightarrow> (string \<Rightarrow> bool) option"
  gist_ssh_url :: "string \<Rightarrow> string"
  localtime :: "real \<Rightarrow> string"
  opener :: "string \<Rightarrow> download_result"
  rev_parse :: "string \<Rightarrow> string option"
  ls_remote :: "string \<Rightarrow> int"
  remote_show :: "string \<Rightarrow> string list option"

text \<open>
  The program state: the argument namespace, the clock (seconds since the epoch, advanced by
  \<^verbatim>\<open>time.sleep\<close>), the number of \<^verbatim>\<open>urlopen\<close> calls made so far, the trace of effects, the
  two log streams and the file system (the files with their content, the directories). What
  the \<^verbatim>\<open>git\<close> child processes do to the file system is not modelled. A log line is recorded as its format string: the interpolation of the
  arguments and the date prefix are not modelled.
\<close>

record state =
  args :: args
  clock :: real
  calls :: nat
  trace :: "event list"
  stdout :: "string list"
  stderr :: "string list"
  files :: "string \<Rightarrow> string option"
  dirs :: "string set"

type_synonym 'a result = "(exc + 'a) \<times> state"

section \<open>Logging and sleeping\<close>

definition log_info :: "string \<Rightarrow> state \<Rightarrow> state" where
  "log_info msg st = st\<lparr>stdout := stdout st @ [msg]\<rparr>"

definition log_warning :: "string \<Rightarrow> state \<Rightarrow> state" where
  "log_warning msg st = st\<lparr>stderr := stderr st @ [msg]\<rparr>"

text \<open>\<^verbatim>\<open>log_warning\<close> of a list of messages writes each of them.\<close>

definition log_warnings :: "string list \<Rightarrow> state \<Rightarrow> state" where
  "log_warnings msgs st = st\<lparr>stderr := stderr st @ msgs\<rparr>"

text \<open>
  \<^verbatim>\<open>log_warning(e.reason)\<close>: a message that is neither a \<^verbatim>\<open>str\<close> nor iterable makes the
  \<^verbatim>\<open>for msg in message\<close> of \<^verbatim>\<open>log_warning\<close> raise \<^verbatim>\<open>TypeError\<close>.
\<close>

definition log_warning_obj :: "string option \<Rightarrow> state \<Rightarrow> unit result" where
  "log_warning_obj msg st =
     (case msg of None \<Rightarrow> (Inl TypeError, st) | Some m \<Rightarrow> (Inr (), log_warning m st))"

text \<open>\<^verbatim>\<open>log_error\<close> logs to stderr and exits with status 1.\<close>

definition log_error :: "string \<Rightarrow> state \<Rightarrow> 'a result" where
  "log_error msg st = (Inl SystemExit, log_warning msg st)"

definition log_errors :: "string list \<Rightarrow> state \<Rightarrow> 'a result" where
  "log_errors msgs st = (Inl SystemExit, log_warnings msgs st)"

definition sleep :: "real \<Rightarrow> state \<Rightarrow> state" where
  "sleep d st = st\<lparr>clock := clock st + d, trace := trace st @ [Sleep d]\<rparr>"

text \<open>\<^verbatim>\<open>calendar.timegm(time.gmtime())\<close>: the clock in whole seconds.\<close>

definition gm_now :: "state \<Rightarrow> int" where
  "gm_now st = \<lfloor>clock st\<rfloor>"

section \<open>The page fetcher\<close>

subsection \<open>\<^verbatim>\<open>urlopen\<close>\<close>

definition urlopen :: "env \<Rightarrow> request \<Rightarrow> state \<Rightarrow> http_result \<times> state" where
  "urlopen e request st =
     (srv e (calls st) request,
      st\<lparr>calls := Suc (calls st), trace := trace st @ [Urlopen request]\<rparr>)"

subsection \<open>\<^verbatim>\<open>_request_url_error\<close>\<close>

text \<open>
  The parameter \<^verbatim>\<open>retry_timeout\<close> is an integer, passed by value: the decrement changes the
  local copy only.
\<close>

definition request_url_error :: "string \<Rightarrow> int \<Rightarrow> state \<Rightarrow> bool result" where
  "request_url_error template retry_timeout st =
     (let st1 = log_info ''{} timed out'' st;
          retry_timeout = retry_timeout - 1
      in if retry_timeout \<ge> 0 then (Inr True, st1)
         else log_error ''{} timed out to much, skipping!'' st1)"

subsection \<open>\<^verbatim>\<open>_request_http_error\<close>\<close>

text \<open>
  \<^verbatim>\<open>int(headers.get('x-ratelimit-remaining', 0))\<close> and
  \<^verbatim>\<open>int(headers.get('x-ratelimit-reset', 0))\<close>
\<close>

definition remaining :: "response \<Rightarrow> int" where
  "remaining r = (case x_ratelimit_remaining r of None \<Rightarrow> 0 | Some n \<Rightarrow> n)"

definition reset_header :: "response \<Rightarrow> int" where
  "reset_header r = (case x_ratelimit_reset r of None \<Rightarrow> 0 | Some n \<Rightarrow> n)"

definition request_http_error ::
  "response \<Rightarrow> string option \<Rightarrow> string list \<Rightarrow> state \<Rightarrow> (string list \<times> bool) \<times> state" where
  "request_http_error exc auth errors st =
     (let limit_remaining = remaining exc
      in if code exc = 403 \<and> limit_remaining < 1 then
           let now = gm_now st;
               reset = (if reset_header exc \<noteq> 0 then reset_header exc else now);
               delta = max 10 (reset - now);
               st1 = log_warning ''Exceeded rate limit of {} requests; waiting {} seconds to reset'' st;
               st2 = (if auth = None
                      then log_info ''Hint: Authenticate to raise your GitHub rate limit'' st1
                      else st1);
               st3 = sleep (of_int delta) st2
           in ((errors, True), st3)
         else ((errors, False), st))"

subsection \<open>\<^verbatim>\<open>_get_response\<close>\<close>

text \<open>
  The \<^verbatim>\<open>while True\<close> loop of \<^verbatim>\<open>_get_response\<close>, with its two loop variables
  \<^verbatim>\<open>retry_timeout\<close> and \<^verbatim>\<open>errors\<close>. The loop need not end: \<open>None\<close> is a run that never
  returns.
\<close>

partial_function (option) get_response_loop ::
  "env \<Rightarrow> request \<Rightarrow> string option \<Rightarrow> string \<Rightarrow> int \<Rightarrow> string list \<Rightarrow> state
   \<Rightarrow> (response \<times> string list) result option" where
  "get_response_loop e request auth template retry_timeout errors st =
     (case urlopen e request st of
        (Returns r, st1) \<Rightarrow> Some (Inr (r, errors), st1)
      | (Raises_HTTPError exc, st1) \<Rightarrow>
          (case request_http_error exc auth errors st1 of
             ((errors', should_continue), st2) \<Rightarrow>
               if should_continue
               then get_response_loop e request auth template retry_timeout errors' st2
               else Some (Inr (exc, errors'), st2))
      | (Raises_URLError why, st1) \<Rightarrow>
          (case log_warning_obj why st1 of
             (Inl x, st2) \<Rightarrow> Some (Inl x, st2)
           | (Inr _, st2) \<Rightarrow>
               (case request_url_error template retry_timeout st2 of
                  (Inl x, st3) \<Rightarrow> Some (Inl x, st3)
                | (Inr should_continue, st3) \<Rightarrow>
                    if should_continue
                    then get_response_loop e request auth template retry_timeout errors st3
                    else Some (Inl URLError, st3)))
      | (Raises_socket_error why, st1) \<Rightarrow>
          (case log_warning_obj why st1 of
             (Inl x, st2) \<Rightarrow> Some (Inl x, st2)
           | (Inr _, st2) \<Rightarrow>
               (case request_url_error template retry_timeout st2 of
                  (Inl x, st3) \<Rightarrow> Some (Inl x, st3)
                | (Inr should_continue, st3) \<Rightarrow>
                    if should_continue
                    then get_response_loop e request auth template retry_timeout errors st3
                    else Some (Inl SocketError, st3))))"

definition get_response ::
  "env \<Rightarrow> request \<Rightarrow> string option \<Rightarrow> string \<Rightarrow> state \<Rightarrow> (response \<times> string list) result option" where
  "get_response e request auth template st = get_response_loop e request auth template 3 [] st"

subsection \<open>Strings and dictionaries\<close>

text \<open>
  \<^verbatim>\<open>str.strip()\<close> and \<^verbatim>\<open>bytes.strip()\<close> on byte strings: the ASCII whitespace characters
  (\<^verbatim>\<open>str\<close> also counts the four separators 28 to 31). Whitespace beyond ASCII is not modelled.
\<close>

definition is_space_bytes :: "char \<Rightarrow> bool" where
  "is_space_bytes c = ((of_char c :: nat) \<in> {9, 10, 11, 12, 13, 32})"

definition is_space :: "char \<Rightarrow> bool" where
  "is_space c = ((of_char c :: nat) \<in> {9, 10, 11, 12, 13, 28, 29, 30, 31, 32})"

definition strip_with :: "(char \<Rightarrow> bool) \<Rightarrow> string \<Rightarrow> string" where
  "strip_with sp s = rev (dropWhile sp (rev (dropWhile sp s)))"

definition strip :: "string \<Rightarrow> string" where
  "strip s = strip_with is_space s"

definition startswith :: "string \<Rightarrow> string \<Rightarrow> bool" where
  "startswith s p = (take (length p) s = p)"

text \<open>The value of an optional string that has been tested to be given.\<close>

definition val :: "string option \<Rightarrow> string" where
  "val x = (case x of None \<Rightarrow> [] | Some v \<Rightarrow> v)"

text \<open>
  \<^verbatim>\<open>d[k] = v\<close> on a dictionary kept in insertion order: an existing key keeps its place (and
  the key object first inserted), a new key goes to the end. \<open>eq\<close> is the equality of keys.
\<close>

fun setitem :: "('k \<Rightarrow> 'k \<Rightarrow> bool) \<Rightarrow> 'k \<Rightarrow> 'v \<Rightarrow> ('k \<times> 'v) list \<Rightarrow> ('k \<times> 'v) list" where
  "setitem eq k v [] = [(k, v)]"
| "setitem eq k v ((k', v') # d) =
     (if eq k' k then (k', v) # d else (k', v') # setitem eq k v d)"

text \<open>\<^verbatim>\<open>dict(items)\<close>: later items overwrite earlier ones.\<close>

definition dict_of :: "(string \<times> 'v) list \<Rightarrow> (string \<times> 'v) list" where
  "dict_of items = fold (\<lambda>(k, v) d. setitem (=) k v d) items []"

subsection \<open>\<^verbatim>\<open>get_auth\<close>\<close>

text \<open>
  The keychain lookup, the token file, the password prompt, \<^verbatim>\<open>urlquote\<close> and
  \<^verbatim>\<open>base64.b64encode\<close> come from the environment; \<^verbatim>\<open>keychain\<close> is \<open>None\<close> when the
  \<^verbatim>\<open>security\<close> command fails, \<^verbatim>\<open>token_file\<close> is \<open>None\<close> when the file cannot be opened
  and its first line otherwise.
\<close>

definition get_auth :: "env \<Rightarrow> bool \<Rightarrow> bool \<Rightarrow> state \<Rightarrow> string option result" where
  "get_auth e encode for_git_cli st =
     (let a = args st in
      case
        (if given (osx_keychain_item_name a) then
           if \<not> given (osx_keychain_item_account a) then
             log_error ''You must specify both name and account fields for osx keychain password items'' st
           else if platform_system e \<noteq> ''Darwin'' then
             log_error ''Keychain arguments are only supported on Mac OSX'' st
           else
             (case keychain e (val (osx_keychain_item_name a)) (val (osx_keychain_item_account a)) of
                None \<Rightarrow>
                  log_error ''No password item matching the provided name and account could be found in the osx keychain.'' st
              | Some out \<Rightarrow> (Inr (Some (strip_with is_space_bytes out @ '':'' @ ''x-oauth-basic'')), st))
         else if given (osx_keychain_item_account a) then
           log_error ''You must specify both name and account fields for osx keychain password items'' st
         else if given (token a) then
           (case
              (if startswith (val (token a)) ''file://'' then
                 (case token_file e (drop (length ''file://'') (val (token a))) of
                    None \<Rightarrow> (Inl OSError, st)
                  | Some line \<Rightarrow> (Inr (), st\<lparr>args := a\<lparr>token := Some (strip line)\<rparr>\<rparr>))
               else (Inr (), st)) of
              (Inl x, st1) \<Rightarrow> (Inl x, st1)
            | (Inr _, st1) \<Rightarrow>
                if \<not> as_app (args st1) then
                  (Inr (Some (val (token (args st1)) @ '':'' @ ''x-oauth-basic'')), st1)
                else if \<not> for_git_cli then (Inr (token (args st1)), st1)
                else (Inr (Some (''x-access-token:'' @ val (token (args st1)))), st1))
         else if given (username a) then
           (let st1 = (if \<not> given (password a)
                       then st\<lparr>args := a\<lparr>password := Some (getpass e)\<rparr>\<rparr> else st);
                pw = (if encode then val (password (args st1))
                      else urlquote e (val (password (args st1))))
            in (Inr (Some (val (username a) @ '':'' @ pw)), st1))
         else if given (password a) then
           log_error ''You must specify a username for basic auth'' st
         else (Inr None, st)) of
        (Inl x, st1) \<Rightarrow> (Inl x, st1)
      | (Inr auth, st1) \<Rightarrow>
          if \<not> given auth then (Inr None, st1)
          else if \<not> encode then (Inr auth, st1)
          else (Inr (Some (b64encode e (val auth))), st1))"

subsection \<open>\<^verbatim>\<open>get_query_args\<close> and \<^verbatim>\<open>_construct_request\<close>\<close>

definition get_query_args :: "(string \<times> json) list option \<Rightarrow> (string \<times> json) list" where
  "get_query_args query_args =
     (case query_args of None \<Rightarrow> [] | Some q \<Rightarrow> if q = [] then [] else q)"

text \<open>
  The request keeps the dictionary that \<^verbatim>\<open>urlencode\<close> serialises: \<^verbatim>\<open>per_page\<close> and
  \<^verbatim>\<open>page\<close>, overwritten or followed by the caller's query arguments.
\<close>

definition construct_request ::
  "int \<Rightarrow> int \<Rightarrow> (string \<times> json) list \<Rightarrow> string \<Rightarrow> string option \<Rightarrow> bool \<Rightarrow> state
   \<Rightarrow> request \<times> state" where
  "construct_request per_page page query_args template auth app st =
     (let querystring = dict_of ([(''per_page'', JInt per_page), (''page'', JInt page)] @ query_args);
          headers =
            (case auth of
               None \<Rightarrow> []
             | Some a \<Rightarrow>
                 if \<not> app then [(''Authorization'', ''Basic '' @ a)]
                 else [(''Authorization'', ''token '' @ a),
                       (''Accept'', ''application/vnd.github.machine-man-preview+json'')]);
          request = \<lparr>req_url = template, req_query = querystring, req_headers = headers\<rparr>
      in (request, log_info ''Requesting {}?{}'' st))"

subsection \<open>\<^verbatim>\<open>retrieve_data_gen\<close>\<close>

text \<open>
  The inner loop of \<^verbatim>\<open>retrieve_data_gen\<close> (lines 278 to 286): a response with status 502 is
  requested again, at most three times, five seconds apart.
\<close>

function retry_502 ::
  "env \<Rightarrow> string \<Rightarrow> (string \<times> json) list \<Rightarrow> string option \<Rightarrow> nat \<Rightarrow> nat
   \<Rightarrow> response \<times> string list \<Rightarrow> state \<Rightarrow> (response \<times> string list) result option" where
  "retry_502 e template query_args auth page retries (r, errors) st =
     (if retries < 3 \<and> code r = 502 then
        let st1 = log_warning ''API request returned HTTP 502: Bad Gateway. Retrying in 5 seconds'' st;
            st2 = sleep 5 st1
        in case construct_request 100 (int page) query_args template auth (as_app (args st2)) st2 of
             (request, st3) \<Rightarrow>
               (case get_response e request auth template st3 of
                  None \<Rightarrow> None
                | Some (Inl x, st4) \<Rightarrow> Some (Inl x, st4)
                | Some (Inr (r', errors'), st4) \<Rightarrow>
                    retry_502 e template query_args auth page (retries + 1) (r', errors') st4)
      else Some (Inr (r, errors), st))"
  by pat_completeness auto
termination
  by (relation "measure (\<lambda>(e, template, query_args, auth, page, retries, r, st). 3 - retries)") auto

declare retry_502.simps [simp del]

text \<open>
  The first half of the body of the page loop (lines 265 to 286): build the request for
  \<open>page\<close>, get the response, throttle on the rate-limit header of that first response, and
  retry on 502.
\<close>

definition fetch_page ::
  "env \<Rightarrow> string \<Rightarrow> (string \<times> json) list \<Rightarrow> string option \<Rightarrow> nat \<Rightarrow> state
   \<Rightarrow> (response \<times> string list) result option" where
  "fetch_page e template query_args auth page st =
     (case construct_request 100 (int page) query_args template auth (as_app (args st)) st of
        (request, st1) \<Rightarrow>
          (case get_response e request auth template st1 of
             None \<Rightarrow> None
           | Some (Inl x, st2) \<Rightarrow> Some (Inl x, st2)
           | Some (Inr (r, errors), st2) \<Rightarrow>
               let limit_remaining = remaining r;
                   st3 = (if throttle_limit (args st2) \<noteq> 0
                             \<and> limit_remaining \<le> throttle_limit (args st2)
                          then sleep (throttle_pause (args st2))
                                 (log_info ''API request limit hit: {} requests left, pausing further requests for {}s'' st2)
                          else st2)
               in retry_502 e template query_args auth page 0 (r, errors) st3))"

text \<open>
  The generator is consumed by a \<^verbatim>\<open>for\<close> loop. The loop's body is the parameter \<open>consume\<close>:
  from the loop's variables \<open>acc\<close> and the item yielded it either goes on to the next item
  (\<open>Next\<close>) or leaves the loop (\<open>Break\<close>), after which the generator is never resumed. It may
  raise, and it may itself fetch.
\<close>

datatype 'a ctl = Next 'a | Break 'a

type_synonym 'a consumer = "'a \<Rightarrow> json \<Rightarrow> state \<Rightarrow> 'a ctl result option"

text \<open>\<^verbatim>\<open>for resp in response: yield resp\<close>\<close>

fun feed :: "'a consumer \<Rightarrow> 'a \<Rightarrow> json list \<Rightarrow> state \<Rightarrow> 'a ctl result option" where
  "feed consume acc [] st = Some (Inr (Next acc), st)"
| "feed consume acc (x # xs) st =
     (case consume acc x st of
        None \<Rightarrow> None
      | Some (Inl err, st1) \<Rightarrow> Some (Inl err, st1)
      | Some (Inr (Break acc1), st1) \<Rightarrow> Some (Inr (Break acc1), st1)
      | Some (Inr (Next acc1), st1) \<Rightarrow> feed consume acc1 xs st1)"

text \<open>
  The second half of the body of the page loop (lines 288 to 307), after the page has been
  fetched: \<open>Stop\<close> is a \<^verbatim>\<open>break\<close> of the \<^verbatim>\<open>while True\<close> loop (or a consumer that left its
  \<^verbatim>\<open>for\<close> loop), \<open>More\<close> is the end of the body, after which the loop goes round again.
\<close>

datatype 'a step = Stop 'a | More 'a

definition page_body ::
  "'a consumer \<Rightarrow> bool \<Rightarrow> response \<times> string list \<Rightarrow> 'a \<Rightarrow> state \<Rightarrow> 'a step result option" where
  "page_body consume single_request fetched acc st1 =
     (case fetched of (r, errors) \<Rightarrow>
        if code r \<noteq> 200 then
          Some (log_errors (errors @ [''API request returned HTTP {0}: {1}'']) st1)
        else if length errors = 0 then
          (case body r of
             JList items \<Rightarrow>
               (case feed consume acc items st1 of
                  None \<Rightarrow> None
                | Some (Inl x, st2) \<Rightarrow> Some (Inl x, st2)
                | Some (Inr (Break acc1), st2) \<Rightarrow> Some (Inr (Stop acc1), st2)
                | Some (Inr (Next acc1), st2) \<Rightarrow>
                    if length items < 100 then Some (Inr (Stop acc1), st2)
                    else if single_request then Some (Inr (Stop acc1), st2)
                    else Some (Inr (More acc1), st2))
           | JDict d \<Rightarrow>
               if single_request then
                 (case consume acc (JDict d) st1 of
                    None \<Rightarrow> None
                  | Some (Inl x, st2) \<Rightarrow> Some (Inl x, st2)
                  | Some (Inr (Break acc1), st2) \<Rightarrow> Some (Inr (Stop acc1), st2)
                  | Some (Inr (Next acc1), st2) \<Rightarrow> Some (Inr (Stop acc1), st2))
               else Some (Inr (More acc), st1)
           | _ \<Rightarrow>
               if single_request then Some (Inr (Stop acc), st1)
               else Some (Inr (More acc), st1))
        else Some (log_errors errors st1))"

text \<open>
  The \<^verbatim>\<open>while True\<close> loop over pages; \<open>page\<close> is the loop variable before its increment.
  The result is the consumer's variables when its \<^verbatim>\<open>for\<close> loop ends. The loop need not
  end: \<open>None\<close> is a run that never returns.
\<close>

partial_function (option) retrieve_data_gen_loop ::
  "env \<Rightarrow> 'a consumer \<Rightarrow> string \<Rightarrow> (string \<times> json) list \<Rightarrow> bool \<Rightarrow> string option \<Rightarrow> nat
   \<Rightarrow> 'a \<Rightarrow> state \<Rightarrow> 'a result option" where
  "retrieve_data_gen_loop e consume template query_args single_request auth page acc st =
     (case fetch_page e template query_args auth (page + 1) st of
        None \<Rightarrow> None
      | Some (Inl x, st1) \<Rightarrow> Some (Inl x, st1)
      | Some (Inr fetched, st1) \<Rightarrow>
          (case page_body consume single_request fetched acc st1 of
             None \<Rightarrow> None
           | Some (Inl x, st2) \<Rightarrow> Some (Inl x, st2)
           | Some (Inr (Stop acc1), st2) \<Rightarrow> Some (Inr acc1, st2)
           | Some (Inr (More acc1), st2) \<Rightarrow>
               retrieve_data_gen_loop e consume template query_args single_request auth
                 (page + 1) acc1 st2))"

definition retrieve_data_gen ::
  "env \<Rightarrow> 'a consumer \<Rightarrow> string \<Rightarrow> (string \<times> json) list option \<Rightarrow> bool \<Rightarrow> 'a \<Rightarrow> state
   \<Rightarrow> 'a result option" where
  "retrieve_data_gen e consume template query_args single_request acc st =
     (case get_auth e (\<not> as_app (args st)) False st of
        (Inl x, st1) \<Rightarrow> Some (Inl x, st1)
      | (Inr auth, st1) \<Rightarrow>
          retrieve_data_gen_loop e consume template (get_query_args query_args) single_request
            auth 0 acc st1)"

text \<open>\<^verbatim>\<open>retrieve_data\<close> is \<^verbatim>\<open>list(retrieve_data_gen(...))\<close>: the consumer that keeps every item.\<close>

definition collect :: "json list consumer" where
  "collect acc x st = Some (Inr (Next (acc @ [x])), st)"

definition retrieve_data ::
  "env \<Rightarrow> string \<Rightarrow> (string \<times> json) list option \<Rightarrow> bool \<Rightarrow> state \<Rightarrow> json list result option" where
  "retrieve_data e template query_args single_request st =
     retrieve_data_gen e collect template query_args single_request [] st"

section \<open>Access to decoded values\<close>

text \<open>\<^verbatim>\<open>x[k]\<close> with a string key: only a dictionary that has the key answers.\<close>

definition getitem :: "json \<Rightarrow> string \<Rightarrow> exc + json" where
  "getitem x k =
     (case x of
        JDict d \<Rightarrow> (case map_of d k of None \<Rightarrow> Inl KeyError | Some v \<Rightarrow> Inr v)
      | _ \<Rightarrow> Inl TypeError)"

text \<open>\<^verbatim>\<open>x.get(k, default)\<close>: only a dictionary has the method.\<close>

definition get_default :: "json \<Rightarrow> string \<Rightarrow> json \<Rightarrow> exc + json" where
  "get_default x k dflt =
     (case x of
        JDict d \<Rightarrow> (case map_of d k of None \<Rightarrow> Inr dflt | Some v \<Rightarrow> Inr v)
      | _ \<Rightarrow> Inl AttributeError)"

definition get :: "json \<Rightarrow> string \<Rightarrow> exc + json" where
  "get x k = get_default x k JNull"

text \<open>\<^verbatim>\<open>x[k] = v\<close> with a string key, on a dictionary.\<close>

definition set_field :: "json \<Rightarrow> string \<Rightarrow> json \<Rightarrow> exc + json" where
  "set_field x k v =
     (case x of JDict d \<Rightarrow> Inr (JDict (setitem (=) k v d)) | _ \<Rightarrow> Inl TypeError)"

text \<open>
  \<^verbatim>\<open>k in x\<close> for a string \<open>k\<close>: a key of a dictionary, an element of a list, a substring of
  a string; the other values are not containers.
\<close>

definition contains :: "json \<Rightarrow> string \<Rightarrow> exc + bool" where
  "contains x k =
     (case x of
        JDict d \<Rightarrow> Inr (k \<in> fst ` set d)
      | JList xs \<Rightarrow> Inr (JStr k \<in> set xs)
      | JStr s \<Rightarrow> Inr (list_ex (\<lambda>n. take (length k) (drop n s) = k) [0..<Suc (length s)])
      | _ \<Rightarrow> Inl TypeError)"

text \<open>
  \<^verbatim>\<open>x < s\<close> and \<^verbatim>\<open>x >= s\<close> for a string \<open>s\<close> (Python 3): strings are compared in
  lexicographic order of their characters, and nothing else is comparable with a string.
\<close>

definition lt_str :: "json \<Rightarrow> string \<Rightarrow> exc + bool" where
  "lt_str x s = (case x of JStr t \<Rightarrow> Inr (t < s) | _ \<Rightarrow> Inl TypeError)"

definition ge_str :: "json \<Rightarrow> string \<Rightarrow> exc + bool" where
  "ge_str x s = (case x of JStr t \<Rightarrow> Inr (t \<ge> s) | _ \<Rightarrow> Inl TypeError)"

text \<open>\<^verbatim>\<open>format\<close> of a decoded value: a string as it is, anything else through \<^verbatim>\<open>str()\<close>.\<close>

definition fmt :: "env \<Rightarrow> json \<Rightarrow> string" where
  "fmt e x = (case x of JStr s \<Rightarrow> s | _ \<Rightarrow> py_str e x)"

text \<open>
  Dictionaries keyed by decoded values (\<^verbatim>\<open>issues[issue['number']]\<close>). Lists and dictionaries
  are not hashable; \<^verbatim>\<open>True\<close> and \<^verbatim>\<open>1\<close>, \<^verbatim>\<open>False\<close> and \<^verbatim>\<open>0\<close> are the same key.
\<close>

fun hashable :: "json \<Rightarrow> bool" where
  "hashable (JList _) = False"
| "hashable (JDict _) = False"
| "hashable _ = True"

fun key_norm :: "json \<Rightarrow> json" where
  "key_norm (JBool b) = JInt (if b then 1 else 0)"
| "key_norm x = x"

definition key_eq :: "json \<Rightarrow> json \<Rightarrow> bool" where
  "key_eq a b = (key_norm a = key_norm b)"

definition store :: "json \<Rightarrow> 'v \<Rightarrow> (json \<times> 'v) list \<Rightarrow> exc + (json \<times> 'v) list" where
  "store k v d = (if hashable k then Inr (setitem key_eq k v d) else Inl TypeError)"

text \<open>\<^verbatim>\<open>d[k]\<close> on such a dictionary.\<close>

fun lookup :: "(json \<times> 'v) list \<Rightarrow> json \<Rightarrow> 'v option" where
  "lookup [] k = None"
| "lookup ((k', v) # d) k = (if key_eq k' k then Some v else lookup d k)"

text \<open>\<^verbatim>\<open>str.lower()\<close> on ASCII letters (the letters beyond ASCII are left as they are).\<close>

definition lower_char :: "char \<Rightarrow> char" where
  "lower_char c =
     (let n = (of_char c :: nat) in if 65 \<le> n \<and> n \<le> 90 then char_of (n + 32) else c)"

definition lower :: "string \<Rightarrow> string" where
  "lower s = map lower_char s"

text \<open>A list comprehension whose condition may raise.\<close>

fun filter_exc :: "('a \<Rightarrow> exc + bool) \<Rightarrow> 'a list \<Rightarrow> exc + 'a list" where
  "filter_exc p [] = Inr []"
| "filter_exc p (x # xs) =
     (case p x of
        Inl err \<Rightarrow> Inl err
      | Inr keep \<Rightarrow>
          (case filter_exc p xs of
             Inl err \<Rightarrow> Inl err
           | Inr ys \<Rightarrow> Inr (if keep then x # ys else ys)))"

section \<open>The file system\<close>

definition path_exists :: "string \<Rightarrow> state \<Rightarrow> bool" where
  "path_exists p st = (files st p \<noteq> None \<or> p \<in> dirs st)"

definition isdir :: "string \<Rightarrow> state \<Rightarrow> bool" where
  "isdir p st = (p \<in> dirs st)"

text \<open>\<^verbatim>\<open>os.path.join\<close> of two components (POSIX).\<close>

definition path_join :: "string \<Rightarrow> string \<Rightarrow> string" where
  "path_join a b =
     (if startswith b ''/'' then b
      else if a = [] \<or> last a = CHR ''/'' then a @ b
      else a @ ''/'' @ b)"

text \<open>
  \<^verbatim>\<open>mkdir_p\<close>: a directory that is there already is passed over, a file in its place
  raises. The parents \<^verbatim>\<open>os.makedirs\<close> creates on the way, and its other failures, are not
  modelled.
\<close>

fun mkdir_p :: "string list \<Rightarrow> state \<Rightarrow> unit result" where
  "mkdir_p [] st = (Inr (), st)"
| "mkdir_p (path # paths) st =
     (if path \<in> dirs st then mkdir_p paths (st\<lparr>trace := trace st @ [Makedirs path]\<rparr>)
      else if files st path \<noteq> None then (Inl OSError, st\<lparr>trace := trace st @ [Makedirs path]\<rparr>)
      else mkdir_p paths (st\<lparr>trace := trace st @ [Makedirs path], dirs := insert path (dirs st)\<rparr>))"

text \<open>\<^verbatim>\<open>with codecs.open(path, 'w') as f: json_dump(data, f)\<close>\<close>

definition write_json :: "env \<Rightarrow> string \<Rightarrow> json \<Rightarrow> state \<Rightarrow> state" where
  "write_json e path data st =
     st\<lparr>trace := trace st @ [Write path (Json data)], files := (files st)(path \<mapsto> dumps e data)\<rparr>"

text \<open>\<^verbatim>\<open>open(path, 'w').write(text)\<close>\<close>

definition write_text :: "string \<Rightarrow> string \<Rightarrow> state \<Rightarrow> state" where
  "write_text path text st =
     st\<lparr>trace := trace st @ [Write path (Text text)], files := (files st)(path \<mapsto> text)\<rparr>"

text \<open>A path component that must be a string.\<close>

definition as_str :: "json \<Rightarrow> exc + string" where
  "as_str x = (case x of JStr s \<Rightarrow> Inr s | _ \<Rightarrow> Inl TypeError)"

section \<open>\<^verbatim>\<open>filter_repositories\<close>\<close>

text \<open>The condition of the first loop: the owner's login is the user, or the item is starred.\<close>

definition owned_or_starred :: "string \<Rightarrow> json \<Rightarrow> exc + bool" where
  "owned_or_starred usr r =
     (case get_default r ''owner'' (JDict []) of
        Inl err \<Rightarrow> Inl err
      | Inr owner \<Rightarrow>
          (case get owner ''login'' of
             Inl err \<Rightarrow> Inl err
           | Inr login \<Rightarrow>
               if login = JStr usr then Inr True
               else (case get r ''is_starred'' of
                       Inl err \<Rightarrow> Inl err
                     | Inr starred \<Rightarrow> Inr (truthy starred))))"

definition not_fork :: "json \<Rightarrow> exc + bool" where
  "not_fork r = (case get r ''fork'' of Inl err \<Rightarrow> Inl err | Inr f \<Rightarrow> Inr (\<not> truthy f))"

definition not_private :: "json \<Rightarrow> exc + bool" where
  "not_private r =
     (case get r ''private'' of
        Inl err \<Rightarrow> Inl err
      | Inr p \<Rightarrow>
          if \<not> truthy p then Inr True
          else (case get r ''public'' of Inl err \<Rightarrow> Inl err | Inr q \<Rightarrow> Inr (truthy q)))"

definition language_in :: "string list \<Rightarrow> json \<Rightarrow> exc + bool" where
  "language_in langs r =
     (case get r ''language'' of
        Inl err \<Rightarrow> Inl err
      | Inr l \<Rightarrow>
          if \<not> truthy l then Inr False
          else (case l of JStr s \<Rightarrow> Inr (lower s \<in> set langs) | _ \<Rightarrow> Inl AttributeError))"

definition name_matches :: "(string \<Rightarrow> bool) \<Rightarrow> json \<Rightarrow> exc + bool" where
  "name_matches matches r =
     (case getitem r ''name'' of
        Inl err \<Rightarrow> Inl err
      | Inr n \<Rightarrow> (case n of JStr s \<Rightarrow> Inr (matches s) | _ \<Rightarrow> Inl TypeError))"

definition filter_repositories :: "env \<Rightarrow> json list \<Rightarrow> state \<Rightarrow> json list result" where
  "filter_repositories e unfiltered_repositories st =
     (let st1 = log_info ''Filtering repositories'' st; a = args st1 in
      case filter_exc (owned_or_starred (user a)) unfiltered_repositories of
        Inl err \<Rightarrow> (Inl err, st1)
      | Inr repositories \<Rightarrow>
          (case (if given (name_regex a)
                 then (case re_compile e (val (name_regex a)) of
                         None \<Rightarrow> Inl RegexError
                       | Some m \<Rightarrow> Inr (Some m))
                 else Inr None) of
             Inl err \<Rightarrow> (Inl err, st1)
           | Inr regex \<Rightarrow>
               let langs = (case languages a of
                              None \<Rightarrow> None
                            | Some ls \<Rightarrow> if ls = [] then None else Some (map lower ls))
               in (case (if \<not> fork a then filter_exc not_fork repositories
                         else Inr repositories) of
                    Inl err \<Rightarrow> (Inl err, st1)
                  | Inr repositories \<Rightarrow>
                      (case (if \<not> private_arg a then filter_exc not_private repositories
                             else Inr repositories) of
                         Inl err \<Rightarrow> (Inl err, st1)
                       | Inr repositories \<Rightarrow>
                           (case (case langs of
                                    None \<Rightarrow> Inr repositories
                                  | Some ls \<Rightarrow> filter_exc (language_in ls) repositories) of
                              Inl err \<Rightarrow> (Inl err, st1)
                            | Inr repositories \<Rightarrow>
                                (case (case regex of
                                         None \<Rightarrow> Inr repositories
                                       | Some m \<Rightarrow> filter_exc (name_matches m) repositories) of
                                   Inl err \<Rightarrow> (Inl err, st1)
                                 | Inr repositories \<Rightarrow> (Inr repositories, st1)))))))"

section \<open>Issues\<close>

text \<open>
  The inner loop of \<^verbatim>\<open>backup_issues\<close> (lines 664 to 671) over the issues of one state:
  pull requests are skipped and counted when pull requests are backed up as well, every
  other issue is stored under its number.
\<close>

fun merge_issues ::
  "bool \<Rightarrow> json list \<Rightarrow> (json \<times> json) list \<times> nat \<Rightarrow> exc + (json \<times> json) list \<times> nat" where
  "merge_issues should_include_pulls [] (issues, issues_skipped) = Inr (issues, issues_skipped)"
| "merge_issues should_include_pulls (issue # rest) (issues, issues_skipped) =
     (case contains issue ''pull_request'' of
        Inl err \<Rightarrow> Inl err
      | Inr is_pull \<Rightarrow>
          if is_pull \<and> should_include_pulls
          then merge_issues should_include_pulls rest (issues, issues_skipped + 1)
          else (case getitem issue ''number'' of
                  Inl err \<Rightarrow> Inl err
                | Inr number \<Rightarrow>
                    (case store number issue issues of
                       Inl err \<Rightarrow> Inl err
                     | Inr issues1 \<Rightarrow>
                         merge_issues should_include_pulls rest (issues1, issues_skipped))))"

text \<open>The query arguments for the issues of one state (lines 654 to 659).\<close>

definition issue_query :: "state \<Rightarrow> string \<Rightarrow> (string \<times> json) list" where
  "issue_query st issue_state =
     (let query_args = [(''filter'', JStr ''all''), (''state'', JStr issue_state)]
      in if given (since (args st))
         then setitem (=) ''since'' (JStr (val (since (args st)))) query_args
         else query_args)"

text \<open>The loop over the states \<^verbatim>\<open>open\<close> and \<^verbatim>\<open>closed\<close> (lines 653 to 671).\<close>

fun issues_of_states ::
  "env \<Rightarrow> string \<Rightarrow> bool \<Rightarrow> string list \<Rightarrow> (json \<times> json) list \<times> nat \<Rightarrow> state
   \<Rightarrow> ((json \<times> json) list \<times> nat) result option" where
  "issues_of_states e template should_include_pulls [] acc st = Some (Inr acc, st)"
| "issues_of_states e template should_include_pulls (issue_state # rest) acc st =
     (let query_args = issue_query st issue_state
      in (case retrieve_data e template (Some query_args) False st of
            None \<Rightarrow> None
          | Some (Inl err, st1) \<Rightarrow> Some (Inl err, st1)
          | Some (Inr issues, st1) \<Rightarrow>
              (case merge_issues should_include_pulls issues acc of
                 Inl err \<Rightarrow> Some (Inl err, st1)
               | Inr acc1 \<Rightarrow> issues_of_states e template should_include_pulls rest acc1 st1)))"

text \<open>
  \<^verbatim>\<open>if wanted: items[number][field] = retrieve_data(args, template)\<close>, the pattern by which
  comments, events and commits are attached to an issue or a pull request.
\<close>

definition attach ::
  "env \<Rightarrow> bool \<Rightarrow> string \<Rightarrow> string \<Rightarrow> json \<Rightarrow> state \<Rightarrow> json result option" where
  "attach e wanted template field item st =
     (if wanted then
        (case retrieve_data e template None False st of
           None \<Rightarrow> None
         | Some (Inl err, st1) \<Rightarrow> Some (Inl err, st1)
         | Some (Inr data, st1) \<Rightarrow>
             (case set_field item field (JList data) of
                Inl err \<Rightarrow> Some (Inl err, st1)
              | Inr item1 \<Rightarrow> Some (Inr item1, st1)))
      else Some (Inr item, st))"

text \<open>The saving loop of \<^verbatim>\<open>backup_issues\<close> (lines 681 to 691).\<close>

fun save_issues ::
  "env \<Rightarrow> string \<Rightarrow> string \<Rightarrow> (json \<times> json) list \<Rightarrow> state \<Rightarrow> unit result option" where
  "save_issues e template issue_cwd [] st = Some (Inr (), st)"
| "save_issues e template issue_cwd ((number, issue) # rest) st =
     (case attach e (include_issue_comments (args st) \<or> include_everything (args st))
             (template @ ''/'' @ fmt e number @ ''/comments'') ''comment_data'' issue st of
        None \<Rightarrow> None
      | Some (Inl err, st1) \<Rightarrow> Some (Inl err, st1)
      | Some (Inr issue1, st1) \<Rightarrow>
          (case attach e (include_issue_events (args st1) \<or> include_everything (args st1))
                  (template @ ''/'' @ fmt e number @ ''/events'') ''event_data'' issue1 st1 of
             None \<Rightarrow> None
           | Some (Inl err, st2) \<Rightarrow> Some (Inl err, st2)
           | Some (Inr issue2, st2) \<Rightarrow>
               save_issues e template issue_cwd rest
                 (write_json e (issue_cwd @ ''/'' @ fmt e number @ ''.json'') issue2 st2)))"

definition backup_issues :: "env \<Rightarrow> string \<Rightarrow> json \<Rightarrow> string \<Rightarrow> state \<Rightarrow> unit result option" where
  "backup_issues e repo_cwd repository repos_template st =
     (let has_issues_dir = isdir (repo_cwd @ ''/issues/.git'') st in
      if skip_existing (args st) \<and> has_issues_dir then Some (Inr (), st)
      else
        (case getitem repository ''full_name'' of
           Inl err \<Rightarrow> Some (Inl err, st)
         | Inr full_name \<Rightarrow>
             let st1 = log_info ''Retrieving {0} issues'' st;
                 issue_cwd = path_join repo_cwd ''issues''
             in (case mkdir_p [repo_cwd, issue_cwd] st1 of
                   (Inl err, st2) \<Rightarrow> Some (Inl err, st2)
                 | (Inr _, st2) \<Rightarrow>
                     let issue_template = repos_template @ ''/'' @ fmt e full_name @ ''/issues'';
                         should_include_pulls =
                           (include_pulls (args st2) \<or> include_everything (args st2))
                     in (case issues_of_states e issue_template should_include_pulls
                                [''open'', ''closed''] ([], 0) st2 of
                           None \<Rightarrow> None
                         | Some (Inl err, st3) \<Rightarrow> Some (Inl err, st3)
                         | Some (Inr (issues, issues_skipped), st3) \<Rightarrow>
                             save_issues e issue_template issue_cwd issues
                               (log_info ''Saving {0} issues to disk{1}'' st3)))))"

section \<open>Pull requests\<close>

text \<open>
  The two tests at the head of the body of both loops over pull requests (lines 723 to 725
  and 734 to 736): \<open>Too_old\<close> is the \<^verbatim>\<open>break\<close>, \<open>Keep\<close> the assignment, \<open>Pass\<close> neither.
\<close>

datatype verdict = Too_old | Keep | Pass

definition pull_verdict :: "string option \<Rightarrow> json \<Rightarrow> exc + verdict" where
  "pull_verdict snc pull =
     (case (if given snc
            then (case getitem pull ''updated_at'' of
                    Inl err \<Rightarrow> Inl err
                  | Inr u \<Rightarrow> lt_str u (val snc))
            else Inr False) of
        Inl err \<Rightarrow> Inl err
      | Inr older \<Rightarrow>
          if older then Inr Too_old
          else (case (if \<not> given snc then Inr True
                      else (case getitem pull ''updated_at'' of
                              Inl err \<Rightarrow> Inl err
                            | Inr u \<Rightarrow> ge_str u (val snc))) of
                  Inl err \<Rightarrow> Inl err
                | Inr newer \<Rightarrow> Inr (if newer then Keep else Pass)))"

text \<open>The body of the loop without details (lines 722 to 726).\<close>

definition pull_body :: "(json \<times> json) list consumer" where
  "pull_body pulls pull st =
     (case pull_verdict (since (args st)) pull of
        Inl err \<Rightarrow> Some (Inl err, st)
      | Inr Too_old \<Rightarrow> Some (Inr (Break pulls), st)
      | Inr Pass \<Rightarrow> Some (Inr (Next pulls), st)
      | Inr Keep \<Rightarrow>
          (case getitem pull ''number'' of
             Inl err \<Rightarrow> Some (Inl err, st)
           | Inr number \<Rightarrow>
               (case store number pull pulls of
                  Inl err \<Rightarrow> Some (Inl err, st)
                | Inr pulls1 \<Rightarrow> Some (Inr (Next pulls1), st))))"

text \<open>
  The body of the loop with details (lines 733 to 741): the pull request is fetched again
  as a single object, and that object is stored.
\<close>

definition pull_body_details :: "env \<Rightarrow> string \<Rightarrow> (json \<times> json) list consumer" where
  "pull_body_details e pulls_template pulls pull st =
     (case pull_verdict (since (args st)) pull of
        Inl err \<Rightarrow> Some (Inl err, st)
      | Inr Too_old \<Rightarrow> Some (Inr (Break pulls), st)
      | Inr Pass \<Rightarrow> Some (Inr (Next pulls), st)
      | Inr Keep \<Rightarrow>
          (case getitem pull ''number'' of
             Inl err \<Rightarrow> Some (Inl err, st)
           | Inr number \<Rightarrow>
               (case retrieve_data e (pulls_template @ ''/'' @ fmt e number) None True st of
                  None \<Rightarrow> None
                | Some (Inl err, st1) \<Rightarrow> Some (Inl err, st1)
                | Some (Inr [], st1) \<Rightarrow> Some (Inl IndexError, st1)
                | Some (Inr (detail # _), st1) \<Rightarrow>
                    (case store number detail pulls of
                       Inl err \<Rightarrow> Some (Inl err, st1)
                     | Inr pulls1 \<Rightarrow> Some (Inr (Next pulls1), st1)))))"

text \<open>The loop over the states \<^verbatim>\<open>open\<close> and \<^verbatim>\<open>closed\<close> (lines 715 to 726).\<close>

fun pulls_of_states ::
  "env \<Rightarrow> string \<Rightarrow> (string \<times> json) list \<Rightarrow> string list \<Rightarrow> (json \<times> json) list \<Rightarrow> state
   \<Rightarrow> (json \<times> json) list result option" where
  "pulls_of_states e template query_args [] pulls st = Some (Inr pulls, st)"
| "pulls_of_states e template query_args (pull_state # rest) pulls st =
     (let query_args = setitem (=) ''state'' (JStr pull_state) query_args
      in (case retrieve_data_gen e pull_body template (Some query_args) False pulls st of
            None \<Rightarrow> None
          | Some (Inl err, st1) \<Rightarrow> Some (Inl err, st1)
          | Some (Inr pulls1, st1) \<Rightarrow> pulls_of_states e template query_args rest pulls1 st1))"

text \<open>The pull requests that \<^verbatim>\<open>backup_pulls\<close> gathers (lines 703 to 741).\<close>

definition gather_pulls ::
  "env \<Rightarrow> string \<Rightarrow> state \<Rightarrow> (json \<times> json) list result option" where
  "gather_pulls e pulls_template st =
     (let query_args = [(''filter'', JStr ''all''), (''state'', JStr ''all''),
                        (''sort'', JStr ''updated''), (''direction'', JStr ''desc'')]
      in if \<not> include_pull_details (args st)
         then pulls_of_states e pulls_template query_args [''open'', ''closed''] [] st
         else retrieve_data_gen e (pull_body_details e pulls_template) pulls_template
                (Some query_args) False [] st)"

text \<open>The saving loop of \<^verbatim>\<open>backup_pulls\<close> (lines 747 to 757).\<close>

fun save_pulls ::
  "env \<Rightarrow> string \<Rightarrow> string \<Rightarrow> (json \<times> json) list \<Rightarrow> state \<Rightarrow> unit result option" where
  "save_pulls e template pulls_cwd [] st = Some (Inr (), st)"
| "save_pulls e template pulls_cwd ((number, pull) # rest) st =
     (case attach e (include_pull_comments (args st) \<or> include_everything (args st))
             (template @ ''/'' @ fmt e number @ ''/comments'') ''comment_data'' pull st of
        None \<Rightarrow> None
      | Some (Inl err, st1) \<Rightarrow> Some (Inl err, st1)
      | Some (Inr pull1, st1) \<Rightarrow>
          (case attach e (include_pull_commits (args st1) \<or> include_everything (args st1))
                  (template @ ''/'' @ fmt e number @ ''/commits'') ''commit_data'' pull1 st1 of
             None \<Rightarrow> None
           | Some (Inl err, st2) \<Rightarrow> Some (Inl err, st2)
           | Some (Inr pull2, st2) \<Rightarrow>
               save_pulls e template pulls_cwd rest
                 (write_json e (pulls_cwd @ ''/'' @ fmt e number @ ''.json'') pull2 st2)))"

definition backup_pulls :: "env \<Rightarrow> string \<Rightarrow> json \<Rightarrow> string \<Rightarrow> state \<Rightarrow> unit result option" where
  "backup_pulls e repo_cwd repository repos_template st =
     (let has_pulls_dir = isdir (repo_cwd @ ''/pulls/.git'') st in
      if skip_existing (args st) \<and> has_pulls_dir then Some (Inr (), st)
      else
        (case getitem repository ''full_name'' of
           Inl err \<Rightarrow> Some (Inl err, st)
         | Inr full_name \<Rightarrow>
             let st1 = log_info ''Retrieving {0} pull requests'' st;
                 pulls_cwd = path_join repo_cwd ''pulls''
             in (case mkdir_p [repo_cwd, pulls_cwd] st1 of
                   (Inl err, st2) \<Rightarrow> Some (Inl err, st2)
                 | (Inr _, st2) \<Rightarrow>
                     let pulls_template = repos_template @ ''/'' @ fmt e full_name @ ''/pulls''
                     in (case gather_pulls e pulls_template st2 of
                           None \<Rightarrow> None
                         | Some (Inl err, st3) \<Rightarrow> Some (Inl err, st3)
                         | Some (Inr pulls, st3) \<Rightarrow>
                             save_pulls e pulls_template pulls_cwd pulls
                               (log_info ''Saving {0} pull requests to disk'' st3)))))"

section \<open>Milestones, labels, hooks and releases\<close>

text \<open>The first loop of \<^verbatim>\<open>backup_milestones\<close> (lines 778 and 779).\<close>

fun merge_milestones :: "json list \<Rightarrow> (json \<times> json) list \<Rightarrow> exc + (json \<times> json) list" where
  "merge_milestones [] milestones = Inr milestones"
| "merge_milestones (milestone # rest) milestones =
     (case getitem milestone ''number'' of
        Inl err \<Rightarrow> Inl err
      | Inr number \<Rightarrow>
          (case store number milestone milestones of
             Inl err \<Rightarrow> Inl err
           | Inr milestones1 \<Rightarrow> merge_milestones rest milestones1))"

text \<open>Its second loop (lines 783 to 786).\<close>

fun save_milestones :: "env \<Rightarrow> string \<Rightarrow> (json \<times> json) list \<Rightarrow> state \<Rightarrow> state" where
  "save_milestones e milestone_cwd [] st = st"
| "save_milestones e milestone_cwd ((number, milestone) # rest) st =
     save_milestones e milestone_cwd rest
       (write_json e (milestone_cwd @ ''/'' @ fmt e number @ ''.json'') milestone st)"

definition backup_milestones ::
  "env \<Rightarrow> string \<Rightarrow> json \<Rightarrow> string \<Rightarrow> state \<Rightarrow> unit result option" where
  "backup_milestones e repo_cwd repository repos_template st =
     (let milestone_cwd = path_join repo_cwd ''milestones'' in
      if skip_existing (args st) \<and> isdir milestone_cwd st then Some (Inr (), st)
      else
        (case getitem repository ''full_name'' of
           Inl err \<Rightarrow> Some (Inl err, st)
         | Inr full_name \<Rightarrow>
             (case mkdir_p [repo_cwd, milestone_cwd] (log_info ''Retrieving {0} milestones'' st) of
                (Inl err, st1) \<Rightarrow> Some (Inl err, st1)
              | (Inr _, st1) \<Rightarrow>
                  (case retrieve_data e (repos_template @ ''/'' @ fmt e full_name @ ''/milestones'')
                          (Some [(''state'', JStr ''all'')]) False st1 of
                     None \<Rightarrow> None
                   | Some (Inl err, st2) \<Rightarrow> Some (Inl err, st2)
                   | Some (Inr found, st2) \<Rightarrow>
                       (case merge_milestones found [] of
                          Inl err \<Rightarrow> Some (Inl err, st2)
                        | Inr milestones \<Rightarrow>
                            Some (Inr (), save_milestones e milestone_cwd milestones
                                            (log_info ''Saving {0} milestones to disk'' st2)))))))"

text \<open>\<^verbatim>\<open>_backup_data\<close>\<close>

definition backup_data ::
  "env \<Rightarrow> string \<Rightarrow> string \<Rightarrow> string \<Rightarrow> string \<Rightarrow> state \<Rightarrow> unit result option" where
  "backup_data e name template output_file output_directory st =
     (if \<not> skip_existing (args st) \<or> \<not> path_exists output_file st then
        (case mkdir_p [output_directory] (log_info ''Retrieving {0} {1}'' st) of
           (Inl err, st1) \<Rightarrow> Some (Inl err, st1)
         | (Inr _, st1) \<Rightarrow>
             (case retrieve_data e template None False st1 of
                None \<Rightarrow> None
              | Some (Inl err, st2) \<Rightarrow> Some (Inl err, st2)
              | Some (Inr data, st2) \<Rightarrow>
                  Some (Inr (), write_json e output_file (JList data)
                                  (log_info ''Writing {0} {1} to disk'' st2))))
      else Some (Inr (), st))"

definition backup_labels :: "env \<Rightarrow> string \<Rightarrow> json \<Rightarrow> string \<Rightarrow> state \<Rightarrow> unit result option" where
  "backup_labels e repo_cwd repository repos_template st =
     (let label_cwd = path_join repo_cwd ''labels'';
          output_file = label_cwd @ ''/labels.json''
      in (case getitem repository ''full_name'' of
            Inl err \<Rightarrow> Some (Inl err, st)
          | Inr full_name \<Rightarrow>
              backup_data e ''labels'' (repos_template @ ''/'' @ fmt e full_name @ ''/labels'')
                output_file label_cwd st))"

text \<open>
  \<^verbatim>\<open>backup_hooks\<close>: the \<^verbatim>\<open>try\<close> block holds the call of \<^verbatim>\<open>_backup_data\<close> only, and
  \<^verbatim>\<open>except SystemExit\<close> catches that exception and no other.
\<close>

definition backup_hooks :: "env \<Rightarrow> string \<Rightarrow> json \<Rightarrow> string \<Rightarrow> state \<Rightarrow> unit result option" where
  "backup_hooks e repo_cwd repository repos_template st =
     (case get_auth e True False st of
        (Inl err, st1) \<Rightarrow> Some (Inl err, st1)
      | (Inr auth, st1) \<Rightarrow>
          if \<not> given auth then
            Some (Inr (), log_info ''Skipping hooks since no authentication provided'' st1)
          else
            let hook_cwd = path_join repo_cwd ''hooks'';
                output_file = hook_cwd @ ''/hooks.json''
            in (case getitem repository ''full_name'' of
                  Inl err \<Rightarrow> Some (Inl err, st1)
                | Inr full_name \<Rightarrow>
                    (case backup_data e ''hooks''
                            (repos_template @ ''/'' @ fmt e full_name @ ''/hooks'')
                            output_file hook_cwd st1 of
                       None \<Rightarrow> None
                     | Some (Inl err, st2) \<Rightarrow>
                         if err = SystemExit
                         then Some (Inr (), log_info ''Unable to read hooks, skipping'' st2)
                         else Some (Inl err, st2)
                     | Some (Inr _, st2) \<Rightarrow> Some (Inr (), st2))))"

text \<open>
  \<^verbatim>\<open>download_file\<close>: an asset that is on disk already is not downloaded again; the three
  kinds of failure are logged and passed over.
\<close>

definition download_file :: "env \<Rightarrow> string \<Rightarrow> string \<Rightarrow> string option \<Rightarrow> state \<Rightarrow> unit result" where
  "download_file e url path auth st =
     (if path_exists path st then (Inr (), st)
      else
        (case auth of
           None \<Rightarrow> (Inl TypeError, st)
         | Some a \<Rightarrow>
             (case opener e url of
                Downloaded data \<Rightarrow>
                  (Inr (), st\<lparr>trace := trace st @ [Download url path],
                              files := (files st)(path \<mapsto> data)\<rparr>)
              | Download_HTTPError \<Rightarrow>
                  (Inr (), log_warning ''Skipping download of asset {0} due to HTTPError: {1}''
                             (st\<lparr>trace := trace st @ [Download url path]\<rparr>))
              | Download_URLError \<Rightarrow>
                  (Inr (), log_warning ''Skipping download of asset {0} due to URLError: {1}''
                             (st\<lparr>trace := trace st @ [Download url path]\<rparr>))
              | Download_socket_error \<Rightarrow>
                  (Inr (), log_warning ''Skipping download of asset {0} due to socker error: {1}''
                             (st\<lparr>trace := trace st @ [Download url path]\<rparr>)))))"

text \<open>The loop over the assets of a release (lines 847 and 848).\<close>

fun download_assets :: "env \<Rightarrow> string \<Rightarrow> json list \<Rightarrow> state \<Rightarrow> unit result" where
  "download_assets e release_assets_cwd [] st = (Inr (), st)"
| "download_assets e release_assets_cwd (asset # rest) st =
     (case getitem asset ''url'' of
        Inl err \<Rightarrow> (Inl err, st)
      | Inr url \<Rightarrow>
          (case getitem asset ''name'' of
             Inl err \<Rightarrow> (Inl err, st)
           | Inr name \<Rightarrow>
               (case as_str name of
                  Inl err \<Rightarrow> (Inl err, st)
                | Inr name_str \<Rightarrow>
                    (case get_auth e True False st of
                       (Inl err, st1) \<Rightarrow> (Inl err, st1)
                     | (Inr auth, st1) \<Rightarrow>
                         (case as_str url of
                            Inl err \<Rightarrow> (Inl err, st1)
                          | Inr url_str \<Rightarrow>
                              (case download_file e url_str
                                      (path_join release_assets_cwd name_str) auth st1 of
                                 (Inl err, st2) \<Rightarrow> (Inl err, st2)
                               | (Inr _, st2) \<Rightarrow>
                                   download_assets e release_assets_cwd rest st2))))))"

text \<open>The loop over the releases (lines 835 to 848).\<close>

fun save_releases ::
  "env \<Rightarrow> string \<Rightarrow> bool \<Rightarrow> json list \<Rightarrow> state \<Rightarrow> unit result option" where
  "save_releases e release_cwd include_assets' [] st = Some (Inr (), st)"
| "save_releases e release_cwd include_assets' (release # rest) st =
     (case getitem release ''tag_name'' of
        Inl err \<Rightarrow> Some (Inl err, st)
      | Inr release_name \<Rightarrow>
          let st1 = write_json e (path_join release_cwd (fmt e release_name @ ''.json'')) release st
          in if include_assets' then
               (case getitem release ''assets_url'' of
                  Inl err \<Rightarrow> Some (Inl err, st1)
                | Inr assets_url \<Rightarrow>
                    (case as_str assets_url of
                       Inl err \<Rightarrow> Some (Inl err, st1)
                     | Inr url \<Rightarrow>
                         (case retrieve_data e url None False st1 of
                            None \<Rightarrow> None
                          | Some (Inl err, st2) \<Rightarrow> Some (Inl err, st2)
                          | Some (Inr assets, st2) \<Rightarrow>
                              if length assets > 0 then
                                (case as_str release_name of
                                   Inl err \<Rightarrow> Some (Inl err, st2)
                                 | Inr name_str \<Rightarrow>
                                     (case mkdir_p [path_join release_cwd name_str] st2 of
                                        (Inl err, st3) \<Rightarrow> Some (Inl err, st3)
                                      | (Inr _, st3) \<Rightarrow>
                                          (case download_assets e
                                                  (path_join release_cwd name_str) assets st3 of
                                             (Inl err, st4) \<Rightarrow> Some (Inl err, st4)
                                           | (Inr _, st4) \<Rightarrow>
                                               save_releases e release_cwd include_assets' rest st4)))
                              else save_releases e release_cwd include_assets' rest st2)))
             else save_releases e release_cwd include_assets' rest st1)"

definition backup_releases ::
  "env \<Rightarrow> string \<Rightarrow> json \<Rightarrow> string \<Rightarrow> bool \<Rightarrow> state \<Rightarrow> unit result option" where
  "backup_releases e repo_cwd repository repos_template include_assets' st =
     (case getitem repository ''full_name'' of
        Inl err \<Rightarrow> Some (Inl err, st)
      | Inr repository_fullname \<Rightarrow>
          let release_cwd = path_join repo_cwd ''releases'' in
          (case mkdir_p [repo_cwd, release_cwd] (log_info ''Retrieving {0} releases'' st) of
             (Inl err, st1) \<Rightarrow> Some (Inl err, st1)
           | (Inr _, st1) \<Rightarrow>
               (case retrieve_data e (repos_template @ ''/'' @ fmt e repository_fullname @ ''/releases'')
                       (Some []) False st1 of
                  None \<Rightarrow> None
                | Some (Inl err, st2) \<Rightarrow> Some (Inl err, st2)
                | Some (Inr releases, st2) \<Rightarrow>
                    save_releases e release_cwd include_assets' releases
                      (log_info ''Saving {0} releases to disk'' st2))))"

section \<open>The repository mirror\<close>

definition get_github_api_host :: "args \<Rightarrow> string" where
  "get_github_api_host a =
     (if given (github_host a) then val (github_host a) @ ''/api/v3'' else ''api.github.com'')"

definition get_github_host :: "args \<Rightarrow> string" where
  "get_github_host a = (if given (github_host a) then val (github_host a) else ''github.com'')"

definition get_github_repo_url :: "env \<Rightarrow> json \<Rightarrow> state \<Rightarrow> json result" where
  "get_github_repo_url e repository st =
     (case get repository ''is_gist'' of
        Inl err \<Rightarrow> (Inl err, st)
      | Inr is_gist \<Rightarrow>
          if truthy is_gist then
            (case getitem repository ''git_pull_url'' of
               Inl err \<Rightarrow> (Inl err, st)
             | Inr url \<Rightarrow>
                 if prefer_ssh (args st) then
                   (case as_str url of
                      Inl err \<Rightarrow> (Inl err, st)
                    | Inr u \<Rightarrow> (Inr (JStr (gist_ssh_url e u)), st))
                 else (Inr url, st))
          else if prefer_ssh (args st) then
            (case getitem repository ''ssh_url'' of
               Inl err \<Rightarrow> (Inl err, st)
             | Inr url \<Rightarrow> (Inr url, st))
          else
            (case get_auth e False True st of
               (Inl err, st1) \<Rightarrow> (Inl err, st1)
             | (Inr auth, st1) \<Rightarrow>
                 (case (if given auth
                        then (case getitem repository ''private'' of
                                Inl err \<Rightarrow> Inl err
                              | Inr p \<Rightarrow> Inr (p = JBool True))
                        else Inr False) of
                    Inl err \<Rightarrow> (Inl err, st1)
                  | Inr with_auth \<Rightarrow>
                      if with_auth then
                        (case getitem repository ''owner'' of
                           Inl err \<Rightarrow> (Inl err, st1)
                         | Inr owner \<Rightarrow>
                             (case getitem owner ''login'' of
                                Inl err \<Rightarrow> (Inl err, st1)
                              | Inr login \<Rightarrow>
                                  (case getitem repository ''name'' of
                                     Inl err \<Rightarrow> (Inl err, st1)
                                   | Inr name \<Rightarrow>
                                       (Inr (JStr (''https://'' @ val auth @ ''@''
                                                   @ get_github_host (args st1) @ ''/''
                                                   @ fmt e login @ ''/'' @ fmt e name @ ''.git'')),
                                        st1))))
                      else
                        (case getitem repository ''clone_url'' of
                           Inl err \<Rightarrow> (Inl err, st1)
                         | Inr url \<Rightarrow> (Inr url, st1)))))"

text \<open>\<^verbatim>\<open>logging_subprocess(git_command, None, cwd=...)\<close>: its return code is not used.\<close>

definition logging_subprocess :: "string list \<Rightarrow> string option \<Rightarrow> state \<Rightarrow> state" where
  "logging_subprocess popenargs cwd st = st\<lparr>trace := trace st @ [Popen popenargs cwd]\<rparr>"

text \<open>
  \<^verbatim>\<open>fetch_repository\<close>. The name and the remote URL are decoded values; \<^verbatim>\<open>mask_password\<close>
  is the first to need the URL to be a string (what it computes goes to the log only).
\<close>

definition fetch_repository ::
  "env \<Rightarrow> json \<Rightarrow> json \<Rightarrow> string \<Rightarrow> bool \<Rightarrow> bool \<Rightarrow> bool \<Rightarrow> state \<Rightarrow> unit result" where
  "fetch_repository e name remote_url local_dir skip_existing' bare_clone' lfs_clone' st =
     (case (if bare_clone' then
              if path_exists local_dir st then
                (let st1 = st\<lparr>trace := trace st
                             @ [Check_output [''git'', ''rev-parse'', ''--is-bare-repository''] local_dir]\<rparr>
                 in case rev_parse e local_dir of
                      None \<Rightarrow> (Inl CalledProcessError, st1)
                    | Some out \<Rightarrow> (Inr (out = ''true'' @ [CHR 0x0A]), st1))
              else (Inr False, st)
            else (Inr (path_exists (path_join local_dir ''.git'') st), st)) of
        (Inl err, st1) \<Rightarrow> (Inl err, st1)
      | (Inr clone_exists, st1) \<Rightarrow>
          if clone_exists \<and> skip_existing' then (Inr (), st1)
          else
            (case as_str remote_url of
               Inl err \<Rightarrow> (Inl err, st1)
             | Inr url \<Rightarrow>
                 let st2 = st1\<lparr>trace := trace st1 @ [Call_shell (''git ls-remote '' @ url)]\<rparr>;
                     initialized = ls_remote e url
                 in if initialized = 128 then
                      (Inr (), log_info ''Skipping {0} ({1}) since it's not initialized'' st2)
                    else if clone_exists then
                      (let st3 = (log_info ''Updating {0} in {1}'' st2)
                                   \<lparr>trace := trace st2 @ [Check_output [''git'', ''remote'', ''show''] local_dir]\<rparr>
                       in case remote_show e local_dir of
                            None \<Rightarrow> (Inl CalledProcessError, st3)
                          | Some lines \<Rightarrow>
                              let remotes = map strip lines;
                                  st4 = (if ''origin'' \<notin> set remotes then
                                           logging_subprocess [''git'', ''remote'', ''add'', ''origin'', url]
                                             (Some local_dir)
                                             (logging_subprocess [''git'', ''remote'', ''rm'', ''origin'']
                                                (Some local_dir) st3)
                                         else
                                           logging_subprocess [''git'', ''remote'', ''set-url'', ''origin'', url]
                                             (Some local_dir) st3);
                                  git_command =
                                    (if lfs_clone' then [''git'', ''lfs'', ''fetch'', ''--all'', ''--prune'']
                                     else [''git'', ''fetch'', ''--all'', ''--force'', ''--tags'', ''--prune''])
                              in (Inr (), logging_subprocess git_command (Some local_dir) st4))
                    else
                      (let st3 = log_info ''Cloning {0} repository from {1} to {2}'' st2;
                           git_command =
                             (if bare_clone' then
                                if lfs_clone' then [''git'', ''lfs'', ''clone'', ''--mirror'', url, local_dir]
                                else [''git'', ''clone'', ''--mirror'', url, local_dir]
                              else
                                if lfs_clone' then [''git'', ''lfs'', ''clone'', url, local_dir]
                                else [''git'', ''clone'', url, local_dir])
                       in (Inr (), logging_subprocess git_command None st3))))"

section \<open>The coordinator\<close>

text \<open>Sequencing of two steps that return nothing, and a step under a condition.\<close>

definition and_then ::
  "unit result option \<Rightarrow> (state \<Rightarrow> unit result option) \<Rightarrow> unit result option" where
  "and_then r k =
     (case r of
        None \<Rightarrow> None
      | Some (Inl err, st) \<Rightarrow> Some (Inl err, st)
      | Some (Inr _, st) \<Rightarrow> k st)"

definition when_set ::
  "bool \<Rightarrow> (state \<Rightarrow> unit result option) \<Rightarrow> state \<Rightarrow> unit result option" where
  "when_set c f st = (if c then f st else Some (Inr (), st))"

text \<open>\<^verbatim>\<open>x > y\<close> on decoded values: two strings, or two numbers (a boolean is a number).
  The ordering of two lists is not modelled: it is the \<^verbatim>\<open>TypeError\<close> of every other pair.\<close>

fun number_of :: "json \<Rightarrow> int option" where
  "number_of (JInt n) = Some n"
| "number_of (JBool b) = Some (if b then 1 else 0)"
| "number_of _ = None"

definition gt :: "json \<Rightarrow> json \<Rightarrow> exc + bool" where
  "gt x y =
     (case (x, y) of
        (JStr a, JStr b) \<Rightarrow> Inr (a > b)
      | _ \<Rightarrow>
          (case (number_of x, number_of y) of
             (Some a, Some b) \<Rightarrow> Inr (a > b)
           | _ \<Rightarrow> Inl TypeError))"

text \<open>\<^verbatim>\<open>max\<close> of a list that is not empty: a later item replaces the maximum when it is
  greater.\<close>

fun max_from :: "json \<Rightarrow> json list \<Rightarrow> exc + json" where
  "max_from m [] = Inr m"
| "max_from m (x # xs) =
     (case gt x m of
        Inl err \<Rightarrow> Inl err
      | Inr is_greater \<Rightarrow> if is_greater then max_from x xs else max_from m xs)"

text \<open>\<^verbatim>\<open>list(repository['updated_at'] for repository in repositories)\<close>\<close>

fun updated_ats :: "json list \<Rightarrow> exc + json list" where
  "updated_ats [] = Inr []"
| "updated_ats (repository # rest) =
     (case getitem repository ''updated_at'' of
        Inl err \<Rightarrow> Inl err
      | Inr u \<Rightarrow> (case updated_ats rest of Inl err \<Rightarrow> Inl err | Inr us \<Rightarrow> Inr (u # us)))"

text \<open>Line 563: the newest \<^verbatim>\<open>updated_at\<close> of the repositories, or the local time when
  there is none.\<close>

definition compute_last_update :: "env \<Rightarrow> json list \<Rightarrow> state \<Rightarrow> exc + json" where
  "compute_last_update e repositories st =
     (case updated_ats repositories of
        Inl err \<Rightarrow> Inl err
      | Inr us \<Rightarrow>
          (case (if us = [] then [JStr (localtime e (clock st))] else us) of
             [] \<Rightarrow> Inl TypeError
           | u # rest \<Rightarrow> max_from u rest))"

text \<open>\<^verbatim>\<open>open(path).read()\<close>: a directory cannot be read.\<close>

definition read_file :: "string \<Rightarrow> state \<Rightarrow> exc + string" where
  "read_file path st = (case files st path of None \<Rightarrow> Inl OSError | Some text \<Rightarrow> Inr text)"

text \<open>Lines 562 to 570: the last update to write at the end, and \<^verbatim>\<open>args.since\<close>.\<close>

definition read_since :: "env \<Rightarrow> string \<Rightarrow> json list \<Rightarrow> state \<Rightarrow> json option result" where
  "read_since e output_directory repositories st =
     (if incremental (args st) then
        (case compute_last_update e repositories st of
           Inl err \<Rightarrow> (Inl err, st)
         | Inr last_update \<Rightarrow>
             let last_update_path = path_join output_directory ''last_update'' in
             if path_exists last_update_path st then
               (case read_file last_update_path st of
                  Inl err \<Rightarrow> (Inl err, st)
                | Inr text \<Rightarrow>
                    (Inr (Some last_update), st\<lparr>args := (args st)\<lparr>since := Some (strip text)\<rparr>\<rparr>))
             else (Inr (Some last_update), st\<lparr>args := (args st)\<lparr>since := None\<rparr>\<rparr>))
      else (Inr None, st\<lparr>args := (args st)\<lparr>since := None\<rparr>\<rparr>))"

text \<open>Lines 632 and 633. Opening the file for writing empties it, before \<^verbatim>\<open>write\<close> asks
  for a string.\<close>

definition write_last_update :: "string \<Rightarrow> json option \<Rightarrow> state \<Rightarrow> unit result" where
  "write_last_update output_directory last_update st =
     (if incremental (args st) then
        (case last_update of
           None \<Rightarrow> (Inl TypeError, st)
         | Some (JStr text) \<Rightarrow> (Inr (), write_text (path_join output_directory ''last_update'') text st)
         | Some _ \<Rightarrow> (Inl TypeError, write_text (path_join output_directory ''last_update'') [] st))
      else (Inr (), st))"

text \<open>Lines 573 to 580: the directory of a repository.\<close>

definition repo_cwd_of :: "string \<Rightarrow> json \<Rightarrow> exc + string" where
  "repo_cwd_of output_directory repository =
     (case get repository ''is_gist'' of
        Inl err \<Rightarrow> Inl err
      | Inr is_gist \<Rightarrow>
          if truthy is_gist then
            (case getitem repository ''id'' of
               Inl err \<Rightarrow> Inl err
             | Inr ident \<Rightarrow>
                 (case as_str ident of
                    Inl err \<Rightarrow> Inl err
                  | Inr i \<Rightarrow> Inr (path_join (path_join output_directory ''gists'') i)))
          else
            (case get repository ''is_starred'' of
               Inl err \<Rightarrow> Inl err
             | Inr is_starred \<Rightarrow>
                 if truthy is_starred then
                   (case getitem repository ''owner'' of
                      Inl err \<Rightarrow> Inl err
                    | Inr owner \<Rightarrow>
                        (case getitem owner ''login'' of
                           Inl err \<Rightarrow> Inl err
                         | Inr login \<Rightarrow>
                             (case getitem repository ''name'' of
                                Inl err \<Rightarrow> Inl err
                              | Inr name \<Rightarrow>
                                  (case as_str login of
                                     Inl err \<Rightarrow> Inl err
                                   | Inr l \<Rightarrow>
                                       (case as_str name of
                                          Inl err \<Rightarrow> Inl err
                                        | Inr n \<Rightarrow>
                                            Inr (path_join (path_join (path_join output_directory
                                                   ''starred'') l) n))))))
                 else
                   (case getitem repository ''name'' of
                      Inl err \<Rightarrow> Inl err
                    | Inr name \<Rightarrow>
                        (case as_str name of
                           Inl err \<Rightarrow> Inl err
                         | Inr n \<Rightarrow>
                             Inr (path_join (path_join output_directory ''repositories'') n)))))"

text \<open>
  The sub-resources of a repository (lines 604 to 630), in their fixed order: wiki, issues,
  pull requests, milestones, labels, hooks, releases.
\<close>

definition backup_resources ::
  "env \<Rightarrow> string \<Rightarrow> string \<Rightarrow> json \<Rightarrow> json \<Rightarrow> state \<Rightarrow> unit result option" where
  "backup_resources e repos_template repo_cwd repo_url repository st =
     (case getitem repository ''has_wiki'' of
        Inl err \<Rightarrow> Some (Inl err, st)
      | Inr has_wiki \<Rightarrow>
          and_then
            (if truthy has_wiki \<and> (include_wiki (args st) \<or> include_everything (args st)) then
               (case getitem repository ''name'' of
                  Inl err \<Rightarrow> Some (Inl err, st)
                | Inr name \<Rightarrow>
                    (case repo_url of
                       JStr url \<Rightarrow>
                         Some (fetch_repository e name (JStr (wiki_url e url))
                                 (path_join repo_cwd ''wiki'') (skip_existing (args st))
                                 (bare_clone (args st)) (lfs_clone (args st)) st)
                     | _ \<Rightarrow> Some (Inl AttributeError, st)))
             else Some (Inr (), st))
            (\<lambda>st. and_then
               (when_set (include_issues (args st) \<or> include_everything (args st))
                  (backup_issues e repo_cwd repository repos_template) st)
            (\<lambda>st. and_then
               (when_set (include_pulls (args st) \<or> include_everything (args st))
                  (backup_pulls e repo_cwd repository repos_template) st)
            (\<lambda>st. and_then
               (when_set (include_milestones (args st) \<or> include_everything (args st))
                  (backup_milestones e repo_cwd repository repos_template) st)
            (\<lambda>st. and_then
               (when_set (include_labels (args st) \<or> include_everything (args st))
                  (backup_labels e repo_cwd repository repos_template) st)
            (\<lambda>st. and_then
               (when_set (include_hooks (args st) \<or> include_everything (args st))
                  (backup_hooks e repo_cwd repository repos_template) st)
            (\<lambda>st.
               when_set (include_releases (args st) \<or> include_everything (args st))
                 (backup_releases e repo_cwd repository repos_template
                    (include_assets (args st) \<or> include_everything (args st))) st)))))))"

text \<open>The body of the loop over the repositories (lines 573 to 630).\<close>

definition backup_repository ::
  "env \<Rightarrow> string \<Rightarrow> string \<Rightarrow> json \<Rightarrow> state \<Rightarrow> unit result option" where
  "backup_repository e output_directory repos_template repository st =
     (case repo_cwd_of output_directory repository of
        Inl err \<Rightarrow> Some (Inl err, st)
      | Inr repo_cwd \<Rightarrow>
          let repo_dir = path_join repo_cwd ''repository'' in
          (case get_github_repo_url e repository st of
             (Inl err, st1) \<Rightarrow> Some (Inl err, st1)
           | (Inr repo_url, st1) \<Rightarrow>
               (case get repository ''is_gist'' of
                  Inl err \<Rightarrow> Some (Inl err, st1)
                | Inr is_gist \<Rightarrow>
                    let gists = (include_gists (args st1) \<or> include_starred_gists (args st1)) in
                    if (include_repository (args st1) \<or> include_everything (args st1))
                       \<or> (gists \<and> truthy is_gist)
                    then
                      (case (if \<not> truthy is_gist then get repository ''name''
                             else get repository ''id'') of
                         Inl err \<Rightarrow> Some (Inl err, st1)
                       | Inr repo_name \<Rightarrow>
                           (case fetch_repository e repo_name repo_url repo_dir
                                   (skip_existing (args st1)) (bare_clone (args st1))
                                   (lfs_clone (args st1)) st1 of
                              (Inl err, st2) \<Rightarrow> Some (Inl err, st2)
                            | (Inr _, st2) \<Rightarrow>
                                if truthy is_gist
                                then Some (Inr (), write_json e (repo_cwd @ ''/gist.json'') repository st2)
                                else backup_resources e repos_template repo_cwd repo_url repository st2))
                    else backup_resources e repos_template repo_cwd repo_url repository st1)))"

fun backup_each ::
  "env \<Rightarrow> string \<Rightarrow> string \<Rightarrow> json list \<Rightarrow> state \<Rightarrow> unit result option" where
  "backup_each e output_directory repos_template [] st = Some (Inr (), st)"
| "backup_each e output_directory repos_template (repository # rest) st =
     and_then (backup_repository e output_directory repos_template repository st)
       (backup_each e output_directory repos_template rest)"

definition backup_repositories :: "env \<Rightarrow> string \<Rightarrow> json list \<Rightarrow> state \<Rightarrow> unit result option" where
  "backup_repositories e output_directory repositories st =
     (let st1 = log_info ''Backing up repositories'' st;
          repos_template = ''https://'' @ get_github_api_host (args st1) @ ''/repos''
      in (case read_since e output_directory repositories st1 of
            (Inl err, st2) \<Rightarrow> Some (Inl err, st2)
          | (Inr last_update, st2) \<Rightarrow>
              (case backup_each e output_directory repos_template repositories st2 of
                 None \<Rightarrow> None
               | Some (Inl err, st3) \<Rightarrow> Some (Inl err, st3)
               | Some (Inr _, st3) \<Rightarrow> Some (write_last_update output_directory last_update st3))))"

section \<open>A test bed\<close>

text \<open>
  A concrete environment and a concrete initial state, on which the model is run below: no
  credentials, no option set, an empty file system, a server that cannot be reached.
\<close>

definition args0 :: args where
  "args0 =
     \<lparr>user = ''octocat'', username = None, password = None, token = None, as_app = False,
      osx_keychain_item_name = None, osx_keychain_item_account = None,
      throttle_limit = 0, throttle_pause = 30, incremental = False, since = None,
      skip_existing = False, include_everything = False, include_pulls = False,
      include_pull_details = False, include_pull_comments = False,
      include_pull_commits = False, include_issue_comments = False,
      include_issue_events = False, fork = False, private_arg = False, languages = None,
      name_regex = None, github_host = None, prefer_ssh = False, bare_clone = False,
      lfs_clone = False, include_gists = False, include_starred_gists = False,
      include_repository = False, include_wiki = False, include_issues = False,
      include_milestones = False, include_labels = False, include_hooks = False,
      include_releases = False, include_assets = False\<rparr>"

definition env0 :: env where
  "env0 =
     \<lparr>srv = (\<lambda>n rq. Raises_URLError (Some ''unreachable'')),
      b64encode = (\<lambda>s. s), urlquote = (\<lambda>s. s), platform_system = ''Linux'',
      keychain = (\<lambda>name account. None), token_file = (\<lambda>path. None), getpass = [],
      py_str = (\<lambda>x. []), dumps = (\<lambda>x. []), wiki_url = (\<lambda>s. s),
      re_compile = (\<lambda>pattern. None), gist_ssh_url = (\<lambda>s. s),
      localtime = (\<lambda>t. ''1970-01-01T00:00:00Z''), opener = (\<lambda>url. Download_URLError),
      rev_parse = (\<lambda>dir. None), ls_remote = (\<lambda>url. 0), remote_show = (\<lambda>dir. None)\<rparr>"

definition state0 :: state where
  "state0 =
     \<lparr>args = args0, clock = 1000, calls = 0, trace = [], stdout = [], stderr = [],
      files = (\<lambda>path. None), dirs = {}\<rparr>"

text \<open>A successful response with a given body, and the first request for a URL.\<close>

definition ok :: "json \<Rightarrow> response" where
  "ok b = \<lparr>code = 200, reason = ''OK'', x_ratelimit_remaining = None,
           x_ratelimit_reset = None, body = b\<rparr>"

definition page_request :: "string \<Rightarrow> int \<Rightarrow> request" where
  "page_request url n =
     \<lparr>req_url = url, req_query = [(''per_page'', JInt 100), (''page'', JInt n)],
      req_headers = []\<rparr>"

text \<open>A server that times out four times and answers then; one that times out always.\<close>

definition flaky_env :: env where
  "flaky_env =
     env0\<lparr>srv := (\<lambda>n rq. if n < 4 then Raises_URLError (Some ''timed out'')
                         else Returns (ok (JList [])))\<rparr>"

definition dead_env :: env where
  "dead_env = env0\<lparr>srv := (\<lambda>n rq. Raises_URLError (Some ''timed out''))\<rparr>"





text \<open>Servers that answer page one with a hundred items, or with an object.\<close>

definition full_then_short_env :: env where
  "full_then_short_env =
     env0\<lparr>srv := (\<lambda>n rq. if n < 1 then Returns (ok (JList (replicate 100 JNull)))
                         else Returns (ok (JList [JNull])))\<rparr>"

definition object_then_empty_env :: env where
  "object_then_empty_env =
     env0\<lparr>srv := (\<lambda>n rq. if n < 1 then Returns (ok (JDict [(''login'', JStr ''octocat'')]))
                         else Returns (ok (JList [])))\<rparr>"

text \<open>What a run returned, and the effects it left, when it ended.\<close>

definition returned :: "'a result option \<Rightarrow> (exc + 'a) option" where
  "returned run = map_option fst run"

definition effects :: "'a result option \<Rightarrow> event list option" where
  "effects run = map_option (\<lambda>r. trace (snd r)) run"

text \<open>
  The two repositories of the filtering scenario of the specification, as it writes them,
  and the same two owned by the user whose account is backed up; the settings of the
  scenario.
\<close>

definition repo_a :: json where
  "repo_a = JDict [(''name'', JStr ''a''), (''fork'', JBool True)]"

definition repo_b :: json where
  "repo_b = JDict [(''name'', JStr ''b''), (''fork'', JBool False), (''language'', JStr ''Go'')]"

definition owned_a :: json where
  "owned_a = JDict [(''name'', JStr ''a''), (''fork'', JBool True),
                    (''owner'', JDict [(''login'', JStr ''octocat'')])]"

definition owned_b :: json where
  "owned_b = JDict [(''name'', JStr ''b''), (''fork'', JBool False), (''language'', JStr ''Go''),
                    (''owner'', JDict [(''login'', JStr ''octocat'')])]"

definition go_state :: state where
  "go_state = state0\<lparr>args := args0\<lparr>fork := False, languages := Some [''go'']\<rparr>\<rparr>"

text \<open>
  A bare mirror that is there already, and a remote that \<^verbatim>\<open>git ls-remote\<close> reports as not
  initialised.
\<close>

definition uninitialized_env :: env where
  "uninitialized_env =
     env0\<lparr>rev_parse := (\<lambda>dir. Some (''true'' @ [CHR 0x0A])), ls_remote := (\<lambda>url. 128)\<rparr>"

definition mirrored_state :: state where
  "mirrored_state = state0\<lparr>dirs := {''out/repositories/r/repository''}\<rparr>"

text \<open>
  A password without a user name; a token, with a server that answers 404 to everything.
\<close>

definition password_only_state :: state where
  "password_only_state = state0\<lparr>args := args0\<lparr>password := Some ''secret''\<rparr>\<rparr>"

definition token_state :: state where
  "token_state = state0\<lparr>args := args0\<lparr>token := Some ''t0ken''\<rparr>\<rparr>"

definition not_found :: response where
  "not_found = \<lparr>code = 404, reason = ''Not Found'', x_ratelimit_remaining = Some 4999,
                 x_ratelimit_reset = None, body = JNull\<rparr>"

definition not_found_env :: env where
  "not_found_env = env0\<lparr>srv := (\<lambda>n rq. Raises_HTTPError not_found)\<rparr>"

definition a_repository :: json where
  "a_repository = JDict [(''name'', JStr ''r''), (''full_name'', JStr ''octocat/r'')]"

text \<open>
  An issue that is listed as open, and listed again as closed (it was closed between the two
  requests); a server that answers the first request with the one and the second with the
  other.
\<close>

definition issue_5_open :: json where
  "issue_5_open = JDict [(''number'', JInt 5), (''state'', JStr ''open'')]"

definition issue_5_closed :: json where
  "issue_5_closed = JDict [(''number'', JInt 5), (''state'', JStr ''closed'')]"

definition issues_env :: env where
  "issues_env =
     env0\<lparr>srv := (\<lambda>n rq. if n < 1 then Returns (ok (JList [issue_5_open]))
                         else Returns (ok (JList [issue_5_closed])))\<rparr>"

text \<open>
  The same for a pull request, which the listing of issues holds as well: it carries the
  key \<^verbatim>\<open>pull_request\<close>.
\<close>

definition pull_5_open :: json where
  "pull_5_open = JDict [(''number'', JInt 5), (''state'', JStr ''open''),
                        (''pull_request'', JDict [])]"

definition pull_5_closed :: json where
  "pull_5_closed = JDict [(''number'', JInt 5), (''state'', JStr ''closed''),
                          (''pull_request'', JDict [])]"

definition pull_issues_env :: env where
  "pull_issues_env =
     env0\<lparr>srv := (\<lambda>n rq. if n < 1 then Returns (ok (JList [pull_5_open]))
                         else Returns (ok (JList [pull_5_closed])))\<rparr>"

text \<open>
  The conditions of the loop of \<^verbatim>\<open>backup_issues\<close> under which an issue is stored, and under
  which its number is a given key.
\<close>

definition kept_issue :: "bool \<Rightarrow> json \<Rightarrow> bool" where
  "kept_issue should_include_pulls issue =
     (case contains issue ''pull_request'' of
        Inl err \<Rightarrow> False
      | Inr is_pull \<Rightarrow> \<not> (is_pull \<and> should_include_pulls))"

definition numbered :: "json \<Rightarrow> json \<Rightarrow> bool" where
  "numbered n issue =
     (case getitem issue ''number'' of Inl err \<Rightarrow> False | Inr k \<Rightarrow> key_eq k n)"

text \<open>
  Two incremental runs on the same output directory, the second from the state the first
  one left: the repository of the first run is gone at the second, and the one that is left
  was updated a year earlier. The watermark is what the file \<^verbatim>\<open>last_update\<close> holds when a run
  has ended.
\<close>

definition repo_2021 :: json where
  "repo_2021 = JDict [(''name'', JStr ''new''), (''clone_url'', JStr ''https://github.com/octocat/new.git''),
                      (''has_wiki'', JBool False), (''updated_at'', JStr ''2021-01-01T00:00:00Z'')]"

definition repo_2020 :: json where
  "repo_2020 = JDict [(''name'', JStr ''old''), (''clone_url'', JStr ''https://github.com/octocat/old.git''),
                      (''has_wiki'', JBool False), (''updated_at'', JStr ''2020-01-01T00:00:00Z'')]"

definition incremental_state :: state where
  "incremental_state = state0\<lparr>args := args0\<lparr>incremental := True\<rparr>\<rparr>"

definition first_run :: "unit result option" where
  "first_run = backup_repositories env0 ''out'' [repo_2021] incremental_state"

definition second_run :: "unit result option" where
  "second_run =
     (case first_run of
        None \<Rightarrow> None
      | Some (_, st) \<Rightarrow> backup_repositories env0 ''out'' [repo_2020] st)"

definition watermark :: "string \<Rightarrow> 'a result option \<Rightarrow> string option option" where
  "watermark output_directory run =
     map_option (\<lambda>r. files (snd r) (path_join output_directory ''last_update'')) run"

text \<open>The number of entries that a dictionary keyed by decoded values has under a key.\<close>

definition entries :: "json \<Rightarrow> (json \<times> 'v) list \<Rightarrow> nat" where
  "entries n d = length (filter (\<lambda>(k, v). key_eq k n) d)"

section \<open>Notions of the specification\<close>

text \<open>The requests for a given URL that a trace holds, in their order.\<close>

definition requested :: "string \<Rightarrow> event list \<Rightarrow> request list" where
  "requested url tr =
     concat (map (\<lambda>ev. case ev of
                          Urlopen rq \<Rightarrow> if req_url rq = url then [rq] else []
                        | _ \<Rightarrow> []) tr)"

text \<open>
  A pull request as the synchronizer needs it: an object with a string \<^verbatim>\<open>updated_at\<close> and a
  hashable \<^verbatim>\<open>number\<close>; its time stamp and its number.
\<close>

definition is_pull :: "json \<Rightarrow> bool" where
  "is_pull x =
     ((case getitem x ''updated_at'' of Inr (JStr u) \<Rightarrow> True | _ \<Rightarrow> False)
      \<and> (case getitem x ''number'' of Inr n \<Rightarrow> hashable n | _ \<Rightarrow> False))"

definition stamp :: "json \<Rightarrow> string" where
  "stamp x = (case getitem x ''updated_at'' of Inr (JStr u) \<Rightarrow> u | _ \<Rightarrow> [])"

definition key_of :: "json \<Rightarrow> json" where
  "key_of x = (case getitem x ''number'' of Inr n \<Rightarrow> n | _ \<Rightarrow> JNull)"

text \<open>
  The specification of the synchronizer: of a stream of pull requests it keeps those that
  are not strictly older than the cutoff, each under its number, a later one replacing an
  earlier one of the same number. What is kept under the number is \<open>f\<close> of the pull request:
  the pull request itself, or its details.
\<close>

definition spec_kept :: "string \<Rightarrow> json list \<Rightarrow> json list" where
  "spec_kept cutoff stream = filter (\<lambda>x. cutoff \<le> stamp x) stream"

definition spec_merged ::
  "(json \<Rightarrow> json) \<Rightarrow> json list \<Rightarrow> (json \<times> json) list \<Rightarrow> (json \<times> json) list" where
  "spec_merged f xs pulls = fold (\<lambda>x d. setitem key_eq (key_of x) (f x) d) xs pulls"

text \<open>The stream that the pages \<open>1, \<dots>, n\<close> of a listing make.\<close>

definition stream_of :: "(nat \<Rightarrow> json list) \<Rightarrow> nat \<Rightarrow> json list" where
  "stream_of pg n = concat (map pg [1..<Suc n])"

text \<open>
  The listings that \<^verbatim>\<open>backup_pulls\<close> goes through, by the value of \<^verbatim>\<open>state\<close> in the query:
  \<^verbatim>\<open>open\<close> and then \<^verbatim>\<open>closed\<close>, or \<^verbatim>\<open>all\<close> when the details are wanted. The query of a
  listing; the request that \<^verbatim>\<open>_construct_request\<close> builds for a page of a URL; and what the
  synchronizer is to keep of listings whose pages \<open>1, \<dots>, N state\<close> are \<open>pg state\<close>.
\<close>

definition pull_states :: "state \<Rightarrow> string list" where
  "pull_states st = (if include_pull_details (args st) then [''all''] else [''open'', ''closed''])"

definition pulls_query :: "string \<Rightarrow> (string \<times> json) list" where
  "pulls_query pull_state =
     [(''filter'', JStr ''all''), (''state'', JStr pull_state),
      (''sort'', JStr ''updated''), (''direction'', JStr ''desc'')]"

definition built_request ::
  "int \<Rightarrow> (string \<times> json) list \<Rightarrow> string \<Rightarrow> string option \<Rightarrow> bool \<Rightarrow> request" where
  "built_request page query_args template auth app =
     fst (construct_request 100 page query_args template auth app state0)"

definition kept_pulls ::
  "string \<Rightarrow> (json \<Rightarrow> json) \<Rightarrow> (string \<Rightarrow> nat \<Rightarrow> json list) \<Rightarrow> (string \<Rightarrow> nat)
   \<Rightarrow> string list \<Rightarrow> (json \<times> json) list" where
  "kept_pulls cutoff f pg N states =
     fold (\<lambda>pull_state d. spec_merged f (spec_kept cutoff (stream_of (pg pull_state) (N pull_state))) d)
       states []"

text \<open>The files that a trace has written, with their content, in their order.\<close>

definition written :: "event list \<Rightarrow> (string \<times> content) list" where
  "written tr =
     concat (map (\<lambda>ev. case ev of Write path data \<Rightarrow> [(path, data)] | _ \<Rightarrow> []) tr)"

text \<open>
  A listing of pull requests whose first page is full: 98 pull requests updated after the
  cutoff, one updated at the cutoff, and one updated before it. The server answers every
  request for the listing with that page, and a request for one pull request with its
  details; \<^verbatim>\<open>str()\<close> of a number below ten is its digit. The states are those in which the
  second of two incremental runs starts its work, without and with \<^verbatim>\<open>--pull-details\<close>: the first
  run has written the cutoff, and the second has read it back.
\<close>

definition new_pull :: json where
  "new_pull = JDict [(''number'', JInt 7), (''updated_at'', JStr ''2021-06-01T00:00:00Z'')]"

definition cutoff_pull :: json where
  "cutoff_pull = JDict [(''number'', JInt 6), (''updated_at'', JStr ''2021-01-01T00:00:00Z'')]"

definition old_pull :: json where
  "old_pull = JDict [(''number'', JInt 3), (''updated_at'', JStr ''2020-06-01T00:00:00Z'')]"

definition pulls_page :: "json list" where
  "pulls_page = replicate 98 new_pull @ [cutoff_pull, old_pull]"

definition details_of :: "json \<Rightarrow> json" where
  "details_of pull = JDict [(''number'', key_of pull), (''mergeable'', JBool True)]"

definition pulls_url :: string where
  "pulls_url = ''https://api.github.com/repos/octocat/r/pulls''"

definition pulls_env :: env where
  "pulls_env =
     env0\<lparr>srv := (\<lambda>n rq. if req_url rq = pulls_url then Returns (ok (JList pulls_page))
                         else if req_url rq = pulls_url @ ''/7''
                         then Returns (ok (details_of new_pull))
                         else Returns (ok (details_of cutoff_pull))),
          py_str := (\<lambda>x. case x of
                            JInt n \<Rightarrow> if 0 \<le> n \<and> n < 10 then [char_of (48 + n)] else []
                          | _ \<Rightarrow> [])\<rparr>"

definition resumed_state :: state where
  "resumed_state =
     snd (read_since pulls_env ''out'' []
            (snd (write_last_update ''out'' (Some (JStr ''2021-01-01T00:00:00Z''))
                    incremental_state)))"

definition resumed_details_state :: state where
  "resumed_details_state =
     resumed_state\<lparr>args := (args resumed_state)\<lparr>include_pull_details := True\<rparr>\<rparr>"

section \<open>Verification\<close>

subsection \<open>One call of \<^verbatim>\<open>urlopen\<close> inside \<^verbatim>\<open>_get_response\<close>\<close>

lemma get_response_loop_returns:
  assumes "srv e (calls st) request = Returns r"
  shows "get_response_loop e request auth template rt errors st =
         Some (Inr (r, errors), snd (urlopen e request st))"
  by (subst get_response_loop.simps) (simp add: urlopen_def assms)

lemma get_response_loop_url_error:
  assumes "srv e (calls st) request = Raises_URLError (Some why)"
  shows "get_response_loop e request auth template 3 errors st =
         get_response_loop e request auth template 3 errors
           (log_info ''{} timed out'' (log_warning why (snd (urlopen e request st))))"
  by (subst get_response_loop.simps)
     (simp add: urlopen_def assms log_warning_obj_def request_url_error_def)


text \<open>The list of errors that \<^verbatim>\<open>_get_response\<close> returns is the one it started with.\<close>

lemma get_response_loop_errors:
  assumes "get_response_loop e request auth template rt errors st = Some y"
  shows "\<forall>r errors' st'. y = (Inr (r, errors'), st') \<longrightarrow> errors' = errors"
proof (rule get_response_loop.raw_induct
    [where P = "\<lambda>e request auth template rt errors st y.
                  \<forall>r errors' st'. y = (Inr (r, errors'), st') \<longrightarrow> errors' = errors",
     OF _ assms], goal_cases)
  case (1 loop e request auth template rt errors st y)
  show ?case using 1(2)
    by (auto simp: request_http_error_def Let_def
        split: prod.splits http_result.splits sum.splits if_splits dest!: 1(1))
qed

lemma get_response_errors:
  "get_response e request auth template st = Some (Inr (r, errors), st') \<Longrightarrow> errors = []"
  using get_response_loop_errors[of e request auth template 3 "[]" st]
  by (simp add: get_response_def)

subsection \<open>Connection errors are retried without a bound\<close>

lemma url_errors_then_answer:
  assumes "\<forall>n. calls st \<le> n \<and> n < calls st + k \<longrightarrow> srv e n request = Raises_URLError (Some why)"
    and "srv e (calls st + k) request = Returns r"
  shows "\<exists>st'. get_response_loop e request auth template 3 errors st = Some (Inr (r, errors), st')
           \<and> trace st' = trace st @ replicate (k + 1) (Urlopen request)"
  using assms
proof (induction k arbitrary: st)
  case 0
  then show ?case by (simp add: get_response_loop_returns urlopen_def)
next
  case (Suc k)
  let ?st1 = "log_info ''{} timed out'' (log_warning why (snd (urlopen e request st)))"
  have c: "calls ?st1 = Suc (calls st)" and t: "trace ?st1 = trace st @ [Urlopen request]"
    by (simp_all add: log_info_def log_warning_def urlopen_def)
  from Suc.prems have first: "srv e (calls st) request = Raises_URLError (Some why)" by simp
  have "\<exists>st'. get_response_loop e request auth template 3 errors ?st1 = Some (Inr (r, errors), st')
           \<and> trace st' = trace ?st1 @ replicate (k + 1) (Urlopen request)"
    using Suc.prems by (intro Suc.IH) (auto simp: c)
  then show ?case
    by (auto simp: get_response_loop_url_error[OF first] t replicate_app_Cons_same)
qed

lemma url_errors_for_ever_aux:
  assumes "get_response_loop e request auth template rt errors st = Some y"
  shows "(\<forall>n rq. srv e n rq = Raises_URLError (Some why)) \<longrightarrow> rt = 3 \<longrightarrow> False"
proof (rule get_response_loop.raw_induct
    [where P = "\<lambda>e request auth template rt errors st y.
                  (\<forall>n rq. srv e n rq = Raises_URLError (Some why)) \<longrightarrow> rt = 3 \<longrightarrow> False",
     OF _ assms], goal_cases)
  case (1 loop e request auth template rt errors st y)
  show ?case
  proof (intro impI)
    assume a: "\<forall>n rq. srv e n rq = Raises_URLError (Some why)" and b: "rt = 3"
    from 1(2) have "loop e request auth template 3 errors
        (log_info ''{} timed out'' (log_warning why (snd (urlopen e request st)))) = Some y"
      by (simp add: urlopen_def a b log_warning_obj_def request_url_error_def)
    from 1(1)[OF this] a show False by simp
  qed
qed

lemma url_errors_for_ever:
  assumes "\<forall>n rq. srv e n rq = Raises_URLError (Some why)"
  shows "get_response e request auth template st = None"
proof (cases "get_response e request auth template st")
  case (Some y)
  then show ?thesis
    using url_errors_for_ever_aux[of e request auth template 3 "[]" st y why] assms
    by (simp add: get_response_def)
qed simp

text \<open>
  C1 (the code departs from the claim). The claim: a connection error is retried at most
  three times, and the fetch then fails fatally. The code: \<^verbatim>\<open>_request_url_error\<close>
  decrements its own copy of \<^verbatim>\<open>retry_timeout\<close>, so every call starts from 3 and answers
  "retry". On a server that times out four times in a row and answers at the fifth call the
  fetch makes all five requests and returns the answer; on a server that always times out
  it never returns, and never exits.
\<close>

theorem url_error_retried_beyond_three:
  "returned (get_response flaky_env (page_request ''t'' 1) None ''t'' state0)
     = Some (Inr (ok (JList []), []))
   \<and> effects (get_response flaky_env (page_request ''t'' 1) None ''t'' state0)
     = Some (replicate 5 (Urlopen (page_request ''t'' 1)))
   \<and> get_response dead_env (page_request ''t'' 1) None ''t'' state0 = None"
proof -
  have "\<exists>st'. get_response_loop flaky_env (page_request ''t'' 1) None ''t'' 3 [] state0
                 = Some (Inr (ok (JList []), []), st')
            \<and> trace st' = trace state0 @ replicate (4 + 1) (Urlopen (page_request ''t'' 1))"
    by (rule url_errors_then_answer[where why = "''timed out''"])
       (simp_all add: flaky_env_def state0_def)
  moreover have "get_response dead_env (page_request ''t'' 1) None ''t'' state0 = None"
    by (rule url_errors_for_ever[where why = "''timed out''"]) (simp add: dead_env_def)
  ultimately show ?thesis
    by (auto simp: returned_def effects_def get_response_def state0_def)
qed

subsection \<open>Rate limiting\<close>






subsection \<open>Pagination\<close>

lemma retry_502_errors:
  "retry_502 e template query_args auth page retries (r0, []) st = Some (Inr (r, errors), st')
   \<Longrightarrow> errors = []"
proof (induction "3 - retries" arbitrary: retries r0 st)
  case 0
  then show ?case by (subst (asm) retry_502.simps) auto
next
  case (Suc n)
  show ?case
  proof (cases "retries < 3 \<and> code r0 = 502")
    case False
    with Suc.prems show ?thesis by (subst (asm) retry_502.simps) auto
  next
    case True
    from Suc.prems True obtain request st3 r' errors' st4 where
      g: "get_response e request auth template st3 = Some (Inr (r', errors'), st4)"
      and rec: "retry_502 e template query_args auth page (retries + 1) (r', errors') st4
                = Some (Inr (r, errors), st')"
      by (subst (asm) retry_502.simps)
         (auto simp: Let_def split: option.splits sum.splits prod.splits)
    from get_response_errors[OF g] have e': "errors' = []" .
    from Suc.hyps(2) have "n = 3 - (retries + 1)" by simp
    from Suc.hyps(1)[OF this rec[unfolded e']] show ?thesis .
  qed
qed

lemma retry_502_not_502: "code r \<noteq> 502 \<Longrightarrow>
  retry_502 e template query_args auth page retries (r, errors) st = Some (Inr (r, errors), st)"
  by (subst retry_502.simps) simp

text \<open>The list of errors of a fetched page is empty: the second test on it is dead code.\<close>

lemma fetch_page_errors:
  assumes "fetch_page e template query_args auth page st = Some (Inr (r, errors), st')"
  shows "errors = []"
proof -
  from assms obtain request st1 r1 errors1 st2 st3 where
    g: "get_response e request auth template st1 = Some (Inr (r1, errors1), st2)"
    and r: "retry_502 e template query_args auth page 0 (r1, errors1) st3 = Some (Inr (r, errors), st')"
    unfolding fetch_page_def
    by (auto simp: Let_def split: prod.splits option.splits sum.splits)
  from get_response_errors[OF g] r show ?thesis by (auto dest: retry_502_errors)
qed

lemma retrieve_data_gen_loop_step:
  assumes "fetch_page e template query_args auth (Suc page) st = Some (Inr fetched, st1)"
  shows "retrieve_data_gen_loop e consume template query_args single_request auth page acc st =
         (case page_body consume single_request fetched acc st1 of
            None \<Rightarrow> None
          | Some (Inl x, st2) \<Rightarrow> Some (Inl x, st2)
          | Some (Inr (Stop acc1), st2) \<Rightarrow> Some (Inr acc1, st2)
          | Some (Inr (More acc1), st2) \<Rightarrow>
              retrieve_data_gen_loop e consume template query_args single_request auth
                (Suc page) acc1 st2)"
  by (subst retrieve_data_gen_loop.simps)
     (simp only: assms[unfolded Suc_eq_plus1] Suc_eq_plus1 option.case sum.case prod.case)

lemma feed_collect: "feed collect acc items st = Some (Inr (Next (acc @ items)), st)"
  by (induction items arbitrary: acc) (simp_all add: collect_def)

text \<open>A page of the servers of the test bed that answer at once.\<close>

lemma fetch_page_answered:
  assumes "srv e (calls st) (fst (construct_request 100 (int page) query_args template auth
                                    (as_app (args st)) st)) = Returns r"
    and "throttle_limit (args st) = 0" and "code r \<noteq> 502"
  shows "fetch_page e template query_args auth page st =
         Some (Inr (r, []),
               snd (urlopen e (fst (construct_request 100 (int page) query_args template auth
                                      (as_app (args st)) st))
                      (log_info ''Requesting {}?{}'' st)))"
proof -
  have cr: "construct_request 100 (int page) query_args template auth (as_app (args st)) st
            = (fst (construct_request 100 (int page) query_args template auth (as_app (args st)) st),
               log_info ''Requesting {}?{}'' st)"
    by (simp add: construct_request_def Let_def)
  have c: "calls (log_info ''Requesting {}?{}'' st) = calls st" by (simp add: log_info_def)
  show ?thesis
    unfolding fetch_page_def
    apply (subst cr)
    apply (simp add: get_response_def get_response_loop_returns c assms(1) Let_def)
    apply (simp add: urlopen_def log_info_def assms(2) retry_502_not_502[OF assms(3)])
    done
qed

text \<open>
  C3, as the code has it. A page that has been fetched with status 200 and whose body is a
  list is fed to the consumer. When the consumer has taken every item:
  \<^item> a list of fewer than 100 items ends the run, in the state the consumer left: nothing
    is requested any more;
  \<^item> a list of exactly 100 items, when the single-request flag is not set, makes the loop go
    round with the page number one higher; and when that next page is fetched with fewer
    than 100 items, the run ends after it: exactly one more page has been requested.
  When the flag is set, a list of 100 items ends the run as well (see the counterexample).
\<close>

theorem short_page_ends_full_page_goes_on:
  assumes "fetch_page e template query_args auth (Suc page) st = Some (Inr (r, errors), st1)"
    and "code r = 200" and "body r = JList items"
    and "feed consume acc items st1 = Some (Inr (Next acc1), st2)"
  shows "(length items < 100 \<longrightarrow>
            retrieve_data_gen_loop e consume template query_args single_request auth page acc st
              = Some (Inr acc1, st2))
       \<and> (length items = 100 \<and> single_request \<longrightarrow>
            retrieve_data_gen_loop e consume template query_args single_request auth page acc st
              = Some (Inr acc1, st2))
       \<and> (length items = 100 \<and> \<not> single_request \<longrightarrow>
            retrieve_data_gen_loop e consume template query_args single_request auth page acc st
              = retrieve_data_gen_loop e consume template query_args single_request auth
                  (Suc page) acc1 st2
            \<and> (\<forall>r' errors' st3 items' acc2 st4.
                  fetch_page e template query_args auth (Suc (Suc page)) st2
                    = Some (Inr (r', errors'), st3)
                  \<and> code r' = 200 \<and> body r' = JList items' \<and> length items' < 100
                  \<and> feed consume acc1 items' st3 = Some (Inr (Next acc2), st4)
                  \<longrightarrow> retrieve_data_gen_loop e consume template query_args single_request auth
                        page acc st = Some (Inr acc2, st4)))"
proof -
  have e0: "errors = []" using fetch_page_errors[OF assms(1)] .
  have step: "retrieve_data_gen_loop e consume template query_args single_request auth page acc st
     = (if length items < 100 \<or> single_request then Some (Inr acc1, st2)
        else retrieve_data_gen_loop e consume template query_args single_request auth
               (Suc page) acc1 st2)"
    by (simp add: retrieve_data_gen_loop_step[OF assms(1)] page_body_def assms(2,3,4) e0)
  have next_short: "retrieve_data_gen_loop e consume template query_args single_request auth
                        (Suc page) acc1 st2 = Some (Inr acc2, st4)"
    if "fetch_page e template query_args auth (Suc (Suc page)) st2 = Some (Inr (r', errors'), st3)"
      and "code r' = 200" and "body r' = JList items'" and "length items' < 100"
      and "feed consume acc1 items' st3 = Some (Inr (Next acc2), st4)"
    for r' errors' st3 items' acc2 st4
    using that fetch_page_errors[OF that(1)]
    by (simp add: retrieve_data_gen_loop_step[OF that(1)] page_body_def)
  show ?thesis
    using step next_short by auto
qed


subsection \<open>Runs on the test bed\<close>

lemma get_auth_state0 [simp]:
  "args st = args0 \<Longrightarrow> get_auth e encode for_git_cli st = (Inr None, st)"
  by (simp add: get_auth_def args0_def given_def Let_def)

lemma first_request [simp]:
  "fst (construct_request 100 n [] ''t'' None False st) = page_request ''t'' n"
  by (simp add: construct_request_def page_request_def dict_of_def Let_def)

lemma args0_simps [simp]: "as_app args0 = False" "throttle_limit args0 = 0"
  by (simp_all add: args0_def)

lemma state0_simps [simp]: "args state0 = args0" "calls state0 = 0" "trace state0 = []"
  by (simp_all add: state0_def)

lemma ok_simps [simp]: "code (ok b) = 200" "body (ok b) = b"
  by (simp_all add: ok_def)

text \<open>The state after the \<open>n\<close>-th page has been requested and answered at once.\<close>

lemma requested_simps [simp]:
  "args (snd (urlopen e rq (log_info m st))) = args st"
  "calls (snd (urlopen e rq (log_info m st))) = Suc (calls st)"
  "trace (snd (urlopen e rq (log_info m st))) = trace st @ [Urlopen rq]"
  by (simp_all add: urlopen_def log_info_def)

text \<open>
  C3, the counterexample: with the single-request flag set, a body of exactly 100 items is
  yielded and the run ends: page 1 is the only page requested.
\<close>

theorem full_page_single_request_counterexample:
  "returned (retrieve_data full_then_short_env ''t'' None True state0)
     = Some (Inr (replicate 100 JNull))
   \<and> effects (retrieve_data full_then_short_env ''t'' None True state0)
     = Some [Urlopen (page_request ''t'' 1)]"
proof -
  let ?st1 = "snd (urlopen full_then_short_env (page_request ''t'' 1)
                 (log_info ''Requesting {}?{}'' state0))"
  have f: "fetch_page full_then_short_env ''t'' [] None (Suc 0) state0
           = Some (Inr (ok (JList (replicate 100 JNull)), []), ?st1)"
    by (subst fetch_page_answered[where r = "ok (JList (replicate 100 JNull))"])
       (simp_all add: full_then_short_env_def)
  have "retrieve_data_gen_loop full_then_short_env collect ''t'' [] True None 0 [] state0
        = Some (Inr (replicate 100 JNull), ?st1)"
    by (simp add: retrieve_data_gen_loop_step[OF f] page_body_def feed_collect)
  then show ?thesis
    by (simp add: returned_def effects_def retrieve_data_def retrieve_data_gen_def
        get_query_args_def)
qed

text \<open>
  The theorem on the test bed: page 1 has 100 items, page 2 has one; the flag is not set.
  Pages 1 and 2 are requested and nothing else, and the 101 items are returned.
\<close>

theorem short_page_ends_full_page_goes_on_witness:
  "returned (retrieve_data_gen_loop full_then_short_env collect ''t'' [] False None 0 [] state0)
     = Some (Inr (replicate 100 JNull @ [JNull]))
   \<and> effects (retrieve_data_gen_loop full_then_short_env collect ''t'' [] False None 0 [] state0)
     = Some [Urlopen (page_request ''t'' 1), Urlopen (page_request ''t'' 2)]"
proof -
  let ?st1 = "snd (urlopen full_then_short_env (page_request ''t'' 1)
                 (log_info ''Requesting {}?{}'' state0))"
  let ?st2 = "snd (urlopen full_then_short_env (page_request ''t'' 2)
                 (log_info ''Requesting {}?{}'' ?st1))"
  have f1: "fetch_page full_then_short_env ''t'' [] None (Suc 0) state0
           = Some (Inr (ok (JList (replicate 100 JNull)), []), ?st1)"
    by (subst fetch_page_answered[where r = "ok (JList (replicate 100 JNull))"])
       (simp_all add: full_then_short_env_def)
  have f2: "fetch_page full_then_short_env ''t'' [] None (Suc (Suc 0)) ?st1
           = Some (Inr (ok (JList [JNull]), []), ?st2)"
    by (subst fetch_page_answered[where r = "ok (JList [JNull])"])
       (simp_all add: full_then_short_env_def)
  have c1: "code (ok (JList (replicate 100 JNull))) = 200"
    and b1: "body (ok (JList (replicate 100 JNull))) = JList (replicate 100 JNull)" by simp_all
  have fd1: "feed collect [] (replicate 100 JNull) ?st1
             = Some (Inr (Next (replicate 100 JNull)), ?st1)"
    using feed_collect[of "[]"] by simp
  have fd2: "feed collect (replicate 100 JNull) [JNull] ?st2
             = Some (Inr (Next (replicate 100 JNull @ [JNull])), ?st2)"
    by (rule feed_collect)
  have full: "length (replicate 100 JNull) = 100 \<and> \<not> False" by simp
  have short: "fetch_page full_then_short_env ''t'' [] None (Suc (Suc 0)) ?st1
                 = Some (Inr (ok (JList [JNull]), []), ?st2)
               \<and> code (ok (JList [JNull])) = 200 \<and> body (ok (JList [JNull])) = JList [JNull]
               \<and> length [JNull] < 100
               \<and> feed collect (replicate 100 JNull) [JNull] ?st2
                 = Some (Inr (Next (replicate 100 JNull @ [JNull])), ?st2)"
  proof (intro conjI)
    show "fetch_page full_then_short_env ''t'' [] None (Suc (Suc 0)) ?st1
            = Some (Inr (ok (JList [JNull]), []), ?st2)" by (rule f2)
    show "feed collect (replicate 100 JNull) [JNull] ?st2
            = Some (Inr (Next (replicate 100 JNull @ [JNull])), ?st2)" by (rule fd2)
  qed simp_all
  note inst = short_page_ends_full_page_goes_on[OF f1 c1 b1 fd1, where single_request = False]
  from inst full have "\<forall>r' errors' st3 items' acc2 st4.
      fetch_page full_then_short_env ''t'' [] None (Suc (Suc 0)) ?st1 = Some (Inr (r', errors'), st3)
      \<and> code r' = 200 \<and> body r' = JList items' \<and> length items' < 100
      \<and> feed collect (replicate 100 JNull) items' st3 = Some (Inr (Next acc2), st4)
      \<longrightarrow> retrieve_data_gen_loop full_then_short_env collect ''t'' [] False None 0 [] state0
            = Some (Inr acc2, st4)"
    by blast
  with short
  have "retrieve_data_gen_loop full_then_short_env collect ''t'' [] False None 0 [] state0
        = Some (Inr (replicate 100 JNull @ [JNull]), ?st2)"
    by blast
  then show ?thesis by (simp add: returned_def effects_def)
qed

subsection \<open>A body that is an object\<close>

text \<open>
  C4, as the code has it. A page that has been fetched with status 200 and whose body is an
  object: when the single-request flag is set, the object is handed to the consumer once
  and the run ends there; when it is not set, the object is not yielded at all, and the
  loop goes round with the next page.
\<close>

theorem object_yielded_once_under_single_request:
  assumes "fetch_page e template query_args auth (Suc page) st = Some (Inr (r, errors), st1)"
    and "code r = 200" and "body r = JDict d"
  shows "(single_request \<longrightarrow>
            retrieve_data_gen_loop e consume template query_args single_request auth page acc st
              = (case consume acc (JDict d) st1 of
                   None \<Rightarrow> None
                 | Some (Inl x, st2) \<Rightarrow> Some (Inl x, st2)
                 | Some (Inr (Next acc1), st2) \<Rightarrow> Some (Inr acc1, st2)
                 | Some (Inr (Break acc1), st2) \<Rightarrow> Some (Inr acc1, st2)))
       \<and> (single_request \<longrightarrow>
            retrieve_data_gen_loop e collect template query_args single_request auth page items st
              = Some (Inr (items @ [JDict d]), st1))
       \<and> (\<not> single_request \<longrightarrow>
            retrieve_data_gen_loop e consume template query_args single_request auth page acc st
              = retrieve_data_gen_loop e consume template query_args single_request auth
                  (Suc page) acc st1)"
proof -
  have e0: "errors = []" using fetch_page_errors[OF assms(1)] .
  show ?thesis
    by (auto simp: retrieve_data_gen_loop_step[OF assms(1)] page_body_def assms(2,3) e0
        collect_def split: option.splits sum.splits prod.splits ctl.splits)
qed

text \<open>
  C4, the counterexample: the flag is not set and the first body is an object. The object
  is not yielded (the run returns no item), and page 2 is requested.
\<close>

theorem object_without_single_request_counterexample:
  "returned (retrieve_data object_then_empty_env ''t'' None False state0) = Some (Inr [])
   \<and> effects (retrieve_data object_then_empty_env ''t'' None False state0)
     = Some [Urlopen (page_request ''t'' 1), Urlopen (page_request ''t'' 2)]"
proof -
  let ?st1 = "snd (urlopen object_then_empty_env (page_request ''t'' 1)
                 (log_info ''Requesting {}?{}'' state0))"
  let ?st2 = "snd (urlopen object_then_empty_env (page_request ''t'' 2)
                 (log_info ''Requesting {}?{}'' ?st1))"
  have f1: "fetch_page object_then_empty_env ''t'' [] None (Suc 0) state0
           = Some (Inr (ok (JDict [(''login'', JStr ''octocat'')]), []), ?st1)"
    by (subst fetch_page_answered[where r = "ok (JDict [(''login'', JStr ''octocat'')])"])
       (simp_all add: object_then_empty_env_def)
  have f2: "fetch_page object_then_empty_env ''t'' [] None (Suc (Suc 0)) ?st1
           = Some (Inr (ok (JList []), []), ?st2)"
    by (subst fetch_page_answered[where r = "ok (JList [])"])
       (simp_all add: object_then_empty_env_def)
  have "retrieve_data_gen_loop object_then_empty_env collect ''t'' [] False None 0 [] state0
        = Some (Inr [], ?st2)"
    by (simp add: retrieve_data_gen_loop_step[OF f1] retrieve_data_gen_loop_step[OF f2]
        page_body_def)
  then show ?thesis
    by (simp add: returned_def effects_def retrieve_data_def retrieve_data_gen_def
        get_query_args_def)
qed

text \<open>The theorem on the test bed: with the flag set, the object is the one item returned,
  and page 1 the one page requested.\<close>

theorem object_yielded_once_under_single_request_witness:
  "returned (retrieve_data_gen_loop object_then_empty_env collect ''t'' [] True None 0 [] state0)
     = Some (Inr [JDict [(''login'', JStr ''octocat'')]])
   \<and> effects (retrieve_data_gen_loop object_then_empty_env collect ''t'' [] True None 0 [] state0)
     = Some [Urlopen (page_request ''t'' 1)]"
proof -
  let ?st1 = "snd (urlopen object_then_empty_env (page_request ''t'' 1)
                 (log_info ''Requesting {}?{}'' state0))"
  have f1: "fetch_page object_then_empty_env ''t'' [] None (Suc 0) state0
           = Some (Inr (ok (JDict [(''login'', JStr ''octocat'')]), []), ?st1)"
    by (subst fetch_page_answered[where r = "ok (JDict [(''login'', JStr ''octocat'')])"])
       (simp_all add: object_then_empty_env_def)
  have c1: "code (ok (JDict [(''login'', JStr ''octocat'')])) = 200"
    and b1: "body (ok (JDict [(''login'', JStr ''octocat'')])) = JDict [(''login'', JStr ''octocat'')]"
    by simp_all
  from object_yielded_once_under_single_request[OF f1 c1 b1, where single_request = True
      and items = "[]" and consume = collect and acc = "[]", THEN conjunct2, THEN conjunct1]
  have "retrieve_data_gen_loop object_then_empty_env collect ''t'' [] True None 0 [] state0
        = Some (Inr [JDict [(''login'', JStr ''octocat'')]], ?st1)"
    by simp
  then show ?thesis by (simp add: returned_def effects_def)
qed

subsection \<open>Filtering the repositories\<close>

lemma lower_Go: "lower ''Go'' = ''go''" and lower_go: "lower ''go'' = ''go''"
  by code_simp+

text \<open>
  C8, the counterexample. The scenario as the specification writes it: neither repository
  has an owner whose login is the user, and neither is starred, so the first loop of
  \<^verbatim>\<open>filter_repositories\<close> keeps neither and the result is empty.
\<close>

theorem filter_scenario_counterexample:
  "fst (filter_repositories env0 [repo_a, repo_b] go_state) = Inr []"
  by (simp add: filter_repositories_def go_state_def state0_def args0_def repo_a_def
      repo_b_def owned_or_starred_def get_default_def get_def given_def log_info_def Let_def)

text \<open>
  C8, as the code has it. Two repositories that the user owns (or that are starred), the
  first a fork, the second not a fork and in the language \<^verbatim>\<open>Go\<close>; forks are not wanted, the
  languages wanted are \<^verbatim>\<open>go\<close>, no pattern is set for the names, and private repositories are
  wanted or the second one is not private. The result is the second repository alone.
\<close>

theorem filter_scenario_owned:
  assumes "owned_or_starred (user (args st)) a = Inr True"
    and "get a ''fork'' = Inr (JBool True)"
    and "owned_or_starred (user (args st)) b = Inr True"
    and "get b ''fork'' = Inr (JBool False)"
    and "get b ''language'' = Inr (JStr ''Go'')"
    and "\<not> fork (args st)"
    and "languages (args st) = Some [''go'']"
    and "\<not> given (name_regex (args st))"
    and "private_arg (args st) \<or> not_private b = Inr True"
  shows "fst (filter_repositories e [a, b] st) = Inr [b]"
proof -
  have a: "args (log_info ''Filtering repositories'' st) = args st" by (simp add: log_info_def)
  show ?thesis
    using assms
    by (auto simp: filter_repositories_def Let_def a not_fork_def language_in_def lower_Go
        lower_go)
qed

theorem filter_scenario_owned_witness:
  "fst (filter_repositories env0 [owned_a, owned_b] go_state) = Inr [owned_b]"
proof -
  have u: "user (args go_state) = ''octocat''" "\<not> fork (args go_state)"
    "languages (args go_state) = Some [''go'']" "\<not> given (name_regex (args go_state))"
    by (simp_all add: go_state_def args0_def given_def)
  have 1: "owned_or_starred (user (args go_state)) owned_a = Inr True"
    and 3: "owned_or_starred (user (args go_state)) owned_b = Inr True"
    by (simp_all add: u owned_or_starred_def owned_a_def owned_b_def get_default_def get_def)
  have 2: "get owned_a ''fork'' = Inr (JBool True)"
    and 4: "get owned_b ''fork'' = Inr (JBool False)"
    and 5: "get owned_b ''language'' = Inr (JStr ''Go'')"
    by (simp_all add: owned_a_def owned_b_def get_default_def get_def)
  have 9: "private_arg (args go_state) \<or> not_private owned_b = Inr True"
    by (simp add: not_private_def owned_b_def get_def get_default_def)
  from filter_scenario_owned[OF 1 2 3 4 5 u(2) u(3) u(4) 9] show ?thesis .
qed

subsection \<open>A remote that is not initialised\<close>

text \<open>
  C9. When \<^verbatim>\<open>git ls-remote\<close> exits with 128 for the remote URL, \<^verbatim>\<open>fetch_repository\<close> runs no
  command through \<^verbatim>\<open>logging_subprocess\<close>, which is the only way it clones, fetches or
  changes a remote: whatever the modes, and whether or not a clone is there, it adds to the
  trace at most the test for a bare repository and the probe itself. It returns normally,
  unless the test for a bare repository failed, in which case the probe has not been run.
\<close>

theorem uninitialized_remote_is_left_alone:
  assumes "ls_remote e url = 128"
  shows "\<exists>new. trace (snd (fetch_repository e name (JStr url) local_dir skip bare lfs st))
                 = trace st @ new
           \<and> (\<forall>cmd cwd. Popen cmd cwd \<notin> set new)
           \<and> set new \<subseteq> {Check_output [''git'', ''rev-parse'', ''--is-bare-repository''] local_dir,
                         Call_shell (''git ls-remote '' @ url)}
           \<and> (fst (fetch_repository e name (JStr url) local_dir skip bare lfs st) = Inr ()
                \<or> fst (fetch_repository e name (JStr url) local_dir skip bare lfs st)
                     = Inl CalledProcessError
                  \<and> Call_shell (''git ls-remote '' @ url) \<notin> set new)"
  using assms
  by (auto simp: fetch_repository_def as_str_def log_info_def Let_def split: option.splits)

text \<open>The scenario of the specification: a bare mirror that exists, and the probe exits
  with 128. The test for a bare repository and the probe are all that is run.\<close>

theorem uninitialized_remote_is_left_alone_witness:
  "fetch_repository uninitialized_env (JStr ''r'') (JStr ''https://github.com/octocat/r.git'')
     ''out/repositories/r/repository'' False True False mirrored_state
   = (Inr (),
      mirrored_state\<lparr>trace :=
          [Check_output [''git'', ''rev-parse'', ''--is-bare-repository'']
             ''out/repositories/r/repository'',
           Call_shell ''git ls-remote https://github.com/octocat/r.git''],
        stdout := [''Skipping {0} ({1}) since it's not initialized'']\<rparr>)"
proof -
  have h: "ls_remote uninitialized_env ''https://github.com/octocat/r.git'' = 128"
    by (simp add: uninitialized_env_def)
  from uninitialized_remote_is_left_alone[OF h, of "JStr ''r''"
      "''out/repositories/r/repository''" False True False mirrored_state]
  have "\<forall>cmd cwd. Popen cmd cwd \<notin> set (trace (snd (fetch_repository uninitialized_env
     (JStr ''r'') (JStr ''https://github.com/octocat/r.git'')
     ''out/repositories/r/repository'' False True False mirrored_state)))"
    by (auto simp: mirrored_state_def state0_def)
  then show ?thesis
    by (simp add: fetch_repository_def uninitialized_env_def mirrored_state_def state0_def
        path_exists_def as_str_def log_info_def Let_def env0_def)
qed

subsection \<open>Hooks\<close>

lemma log_info_simps [simp]:
  "args (log_info m st) = args st" "calls (log_info m st) = calls st"
  "trace (log_info m st) = trace st" "files (log_info m st) = files st"
  "dirs (log_info m st) = dirs st" "clock (log_info m st) = clock st"
  by (simp_all add: log_info_def)

lemma log_warning_simps [simp]:
  "args (log_warning m st) = args st" "calls (log_warning m st) = calls st"
  "trace (log_warning m st) = trace st" "files (log_warning m st) = files st"
  "dirs (log_warning m st) = dirs st" "clock (log_warning m st) = clock st"
  by (simp_all add: log_warning_def)

lemma log_warnings_simps [simp]:
  "args (log_warnings ms st) = args st" "calls (log_warnings ms st) = calls st"
  "trace (log_warnings ms st) = trace st" "files (log_warnings ms st) = files st"
  "dirs (log_warnings ms st) = dirs st" "clock (log_warnings ms st) = clock st"
  by (simp_all add: log_warnings_def)

text \<open>\<^verbatim>\<open>get_auth\<close> touches the argument namespace and, when it exits, the log; nothing else.\<close>

lemma get_auth_effects:
  assumes "get_auth e encode for_git_cli st = (r, st1)"
  shows "trace st1 = trace st" and "dirs st1 = dirs st" and "files st1 = files st"
    and "calls st1 = calls st" and "clock st1 = clock st" and "stdout st1 = stdout st"
  using assms
  by (auto simp: get_auth_def Let_def log_error_def log_warning_def
      split: if_splits option.splits prod.splits sum.splits)

lemma construct_request_fst:
  "fst (construct_request per_page page query_args template auth app st)
   = \<lparr>req_url = template,
      req_query = dict_of ([(''per_page'', JInt per_page), (''page'', JInt page)] @ query_args),
      req_headers =
        (case auth of
           None \<Rightarrow> []
         | Some a \<Rightarrow>
             if \<not> app then [(''Authorization'', ''Basic '' @ a)]
             else [(''Authorization'', ''token '' @ a),
                   (''Accept'', ''application/vnd.github.machine-man-preview+json'')])\<rparr>"
  by (simp add: construct_request_def Let_def)

lemma get_response_loop_http_error:
  assumes "srv e (calls st) request = Raises_HTTPError x"
    and "\<not> (code x = 403 \<and> remaining x < 1)"
  shows "get_response_loop e request auth template rt errors st =
         Some (Inr (x, errors), snd (urlopen e request st))"
  using assms
  by (subst get_response_loop.simps) (auto simp: urlopen_def request_http_error_def Let_def)

lemma fetch_page_refused:
  assumes "srv e (calls st) (fst (construct_request 100 (int page) query_args template auth
                                    (as_app (args st)) st)) = Raises_HTTPError x"
    and "\<not> (code x = 403 \<and> remaining x < 1)"
    and "throttle_limit (args st) = 0" and "code x \<noteq> 502"
  shows "fetch_page e template query_args auth page st =
         Some (Inr (x, []),
               snd (urlopen e (fst (construct_request 100 (int page) query_args template auth
                                      (as_app (args st)) st))
                      (log_info ''Requesting {}?{}'' st)))"
proof -
  have cr: "construct_request 100 (int page) query_args template auth (as_app (args st)) st
            = (fst (construct_request 100 (int page) query_args template auth (as_app (args st)) st),
               log_info ''Requesting {}?{}'' st)"
    by (simp add: construct_request_def Let_def)
  have c: "calls (log_info ''Requesting {}?{}'' st) = calls st" by (simp add: log_info_def)
  show ?thesis
    unfolding fetch_page_def
    apply (subst cr)
    apply (simp add: get_response_def get_response_loop_http_error[OF _ assms(2)] c assms(1) Let_def)
    apply (simp add: urlopen_def log_info_def assms(3) retry_502_not_502[OF assms(4)])
    done
qed

text \<open>
  C10, the counterexample. With a password and no user name the credentials cannot be
  derived: \<^verbatim>\<open>get_auth\<close> exits, outside the \<^verbatim>\<open>try\<close> block of \<^verbatim>\<open>backup_hooks\<close>, and the exit ends
  the run.
\<close>

theorem hooks_exit_counterexample:
  "returned (backup_hooks env0 ''out/repositories/r'' a_repository
               ''https://api.github.com/repos'' password_only_state)
   = Some (Inl SystemExit)"
  by (simp add: returned_def backup_hooks_def get_auth_def password_only_state_def state0_def
      args0_def given_def log_error_def Let_def)

text \<open>
  C10, as the code has it. When \<^verbatim>\<open>get_auth\<close> returns, \<^verbatim>\<open>backup_hooks\<close> never exits: with no
  credential it returns at once, having logged one line and made no request and no
  directory; with a credential, an exit raised by \<^verbatim>\<open>_backup_data\<close>, whatever its cause, is
  turned into a logged skip.
\<close>

theorem hooks_never_exit_after_auth:
  assumes "get_auth e True False st = (Inr auth, st1)"
  shows "returned (backup_hooks e repo_cwd repository repos_template st) \<noteq> Some (Inl SystemExit)
       \<and> (\<not> given auth \<longrightarrow>
            backup_hooks e repo_cwd repository repos_template st
              = Some (Inr (), log_info ''Skipping hooks since no authentication provided'' st1)
            \<and> trace st1 = trace st \<and> dirs st1 = dirs st \<and> calls st1 = calls st)
       \<and> (\<forall>full_name st2.
            given auth \<and> getitem repository ''full_name'' = Inr full_name
            \<and> backup_data e ''hooks'' (repos_template @ ''/'' @ fmt e full_name @ ''/hooks'')
                 (path_join repo_cwd ''hooks'' @ ''/hooks.json'') (path_join repo_cwd ''hooks'') st1
               = Some (Inl SystemExit, st2)
            \<longrightarrow> backup_hooks e repo_cwd repository repos_template st
                  = Some (Inr (), log_info ''Unable to read hooks, skipping'' st2))"
  using get_auth_effects[OF assms]
  by (auto simp: backup_hooks_def returned_def assms Let_def getitem_def
      split: option.splits sum.splits prod.splits if_splits json.splits)


text \<open>
  The theorem on the test bed: without credentials nothing is requested and no directory
  is made; with a token and a server that answers 404, the fatal error of the fetch is
  caught, and the run of \<^verbatim>\<open>backup_hooks\<close> returns after the directory and the one request.
\<close>

theorem hooks_never_exit_after_auth_witness:
  "backup_hooks env0 ''out/repositories/r'' a_repository ''https://api.github.com/repos'' state0
     = Some (Inr (), log_info ''Skipping hooks since no authentication provided'' state0)
   \<and> returned (backup_hooks not_found_env ''out/repositories/r'' a_repository
                 ''https://api.github.com/repos'' token_state) = Some (Inr ())
   \<and> effects (backup_hooks not_found_env ''out/repositories/r'' a_repository
                 ''https://api.github.com/repos'' token_state)
     = Some [Makedirs ''out/repositories/r/hooks'',
             Urlopen \<lparr>req_url = ''https://api.github.com/repos/octocat/r/hooks'',
                      req_query = [(''per_page'', JInt 100), (''page'', JInt 1)],
                      req_headers = [(''Authorization'', ''Basic t0ken:x-oauth-basic'')]\<rparr>]"
proof -
  let ?rq = "\<lparr>req_url = ''https://api.github.com/repos/octocat/r/hooks'',
                      req_query = [(''per_page'', JInt 100), (''page'', JInt 1)],
                      req_headers = [(''Authorization'', ''Basic t0ken:x-oauth-basic'')]\<rparr>"
  have a0: "get_auth env0 True False state0 = (Inr None, state0)" by simp
  have a1: "get_auth not_found_env enc False st = (Inr (Some ''t0ken:x-oauth-basic''), st)"
    if "args st = args token_state" for st enc
    using that
    by (simp add: get_auth_def token_state_def args0_def given_def val_def startswith_def
        not_found_env_def env0_def Let_def)
  have g: "given (Some ''t0ken:x-oauth-basic'')" "\<not> given None" by (simp_all add: given_def)
  have fn: "getitem a_repository ''full_name'' = Inr (JStr ''octocat/r'')"
    by (simp add: a_repository_def getitem_def)
  have pj: "path_join ''out/repositories/r'' ''hooks'' = ''out/repositories/r/hooks''"
    by (simp add: path_join_def startswith_def)
  let ?st1 = "(log_info ''Retrieving {0} {1}'' token_state)
                \<lparr>trace := [Makedirs ''out/repositories/r/hooks''],
                 dirs := {''out/repositories/r/hooks''}\<rparr>"
  let ?st2 = "snd (urlopen not_found_env ?rq (log_info ''Requesting {}?{}'' ?st1))"
  have mk: "mkdir_p [''out/repositories/r/hooks''] (log_info ''Retrieving {0} {1}'' token_state)
            = (Inr (), ?st1)"
    by (simp add: token_state_def state0_def log_info_def)
  have ar: "args ?st1 = args token_state" by (simp add: log_info_def)
  have tl: "throttle_limit (args token_state) = 0" "as_app (args token_state) = False"
    by (simp_all add: token_state_def)
  have se: "skip_existing (args token_state) = False"
    by (simp add: token_state_def args0_def)
  have fp: "fetch_page not_found_env ''https://api.github.com/repos/octocat/r/hooks'' []
              (Some ''t0ken:x-oauth-basic'') (Suc 0) ?st1 = Some (Inr (not_found, []), ?st2)"
    by (subst fetch_page_refused[where x = not_found])
       (simp_all add: construct_request_fst dict_of_def tl not_found_env_def not_found_def
          remaining_def)
  have rd: "retrieve_data not_found_env ''https://api.github.com/repos/octocat/r/hooks'' None False ?st1
            = Some (log_errors [''API request returned HTTP {0}: {1}''] ?st2)"
    by (simp add: retrieve_data_def retrieve_data_gen_def a1[OF ar] tl get_query_args_def
        retrieve_data_gen_loop_step[OF fp] page_body_def not_found_def log_errors_def)
  have bd: "backup_data not_found_env ''hooks'' (''https://api.github.com/repos'' @ ''/''
              @ fmt not_found_env (JStr ''octocat/r'') @ ''/hooks'')
              (path_join ''out/repositories/r'' ''hooks'' @ ''/hooks.json'')
              (path_join ''out/repositories/r'' ''hooks'') token_state
            = Some (Inl SystemExit, log_warnings [''API request returned HTTP {0}: {1}''] ?st2)"
    unfolding pj
    by (simp add: backup_data_def fmt_def mk rd log_errors_def se del: mkdir_p.simps)
  note none = hooks_never_exit_after_auth[OF a0, of "''out/repositories/r''" a_repository
      "''https://api.github.com/repos''"]
  note some = hooks_never_exit_after_auth[OF a1[OF refl, of True], of "''out/repositories/r''"
      a_repository "''https://api.github.com/repos''"]
  from none g(2) have 1: "backup_hooks env0 ''out/repositories/r'' a_repository
      ''https://api.github.com/repos'' state0
     = Some (Inr (), log_info ''Skipping hooks since no authentication provided'' state0)"
    by blast
  from some g(1) fn bd have 2: "backup_hooks not_found_env ''out/repositories/r'' a_repository
      ''https://api.github.com/repos'' token_state
     = Some (Inr (), log_info ''Unable to read hooks, skipping''
               (log_warnings [''API request returned HTTP {0}: {1}''] ?st2))"
    by blast
  show ?thesis
    by (simp add: 1 2 returned_def effects_def log_info_def log_warnings_def urlopen_def)
qed

subsection \<open>Dictionaries keyed by decoded values\<close>

lemma key_eq_refl [simp]: "key_eq k k"
  by (simp add: key_eq_def)

lemma key_eq_sym: "key_eq a b \<Longrightarrow> key_eq b a"
  by (simp add: key_eq_def)

lemma key_eq_trans: "key_eq a b \<Longrightarrow> key_eq b c \<Longrightarrow> key_eq a c"
  by (simp add: key_eq_def)

lemma lookup_setitem:
  "lookup (setitem key_eq k v d) n = (if key_eq k n then Some v else lookup d n)"
  by (induction d) (auto simp: key_eq_def)

text \<open>The number of entries under a key is at most one, and assignment keeps it so.\<close>

lemma entries_setitem_eq:
  "entries n (setitem key_eq k v d) =
     (if \<exists>p \<in> set d. key_eq (fst p) k then entries n d
      else entries n d + (if key_eq k n then 1 else 0))"
proof (induction d)
  case Nil
  then show ?case by (simp add: entries_def)
next
  case (Cons p d)
  obtain k' v' where p: "p = (k', v')" by (cases p)
  show ?case
  proof (cases "key_eq k' k")
    case True
    then show ?thesis by (simp add: p entries_def)
  next
    case False
    with Cons.IH show ?thesis by (simp add: p entries_def)
  qed
qed

lemma entries_none:
  assumes "\<not> (\<exists>p \<in> set d. key_eq (fst p) k)" and "key_eq k n"
  shows "entries n d = 0"
proof -
  have "\<not> key_eq (fst p) n" if "p \<in> set d" for p
  proof
    assume "key_eq (fst p) n"
    with assms(2) have "key_eq (fst p) k" by (simp add: key_eq_def)
    with that assms(1) show False by blast
  qed
  then have "filter (\<lambda>(k, v). key_eq k n) d = []"
    by (auto simp: filter_empty_conv)
  then show ?thesis by (simp add: entries_def)
qed

lemma entries_setitem:
  assumes "\<forall>m. entries m d \<le> 1"
  shows "entries n (setitem key_eq k v d) \<le> 1"
proof (cases "\<exists>p \<in> set d. key_eq (fst p) k")
  case True
  with assms show ?thesis by (simp add: entries_setitem_eq)
next
  case False
  show ?thesis
  proof (cases "key_eq k n")
    case True
    from entries_none[OF False True] False True show ?thesis by (simp add: entries_setitem_eq)
  next
    case no: False
    with False assms show ?thesis by (simp add: entries_setitem_eq)
  qed
qed

lemma lookup_entries: "lookup d n = Some v \<Longrightarrow> 1 \<le> entries n d"
  by (induction d) (auto simp: entries_def split: if_splits)

subsection \<open>Issues listed under both states\<close>

text \<open>What the loop over the issues of one state leaves under a number: the last issue
  with that number that it keeps, or what was there.\<close>

lemma merge_issues_lookup:
  assumes "merge_issues sip items (d, c) = Inr (d', c')"
  shows "lookup d' n =
           (case filter (\<lambda>i. kept_issue sip i \<and> numbered n i) items of
              [] \<Rightarrow> lookup d n
            | x # xs \<Rightarrow> Some (last (x # xs)))"
  using assms
proof (induction items arbitrary: d c)
  case Nil
  then show ?case by simp
next
  case (Cons i items)
  show ?case
  proof (cases "kept_issue sip i")
    case False
    with Cons.prems have "merge_issues sip items (d, c + 1) = Inr (d', c')"
      by (auto simp: kept_issue_def split: sum.splits if_splits)
    from Cons.IH[OF this] False show ?thesis by simp
  next
    case True
    with Cons.prems obtain k where k: "getitem i ''number'' = Inr k" and h: "hashable k"
      and rec: "merge_issues sip items (setitem key_eq k i d, c) = Inr (d', c')"
      by (auto simp: kept_issue_def store_def split: sum.splits if_splits)
    have nb: "numbered n i = key_eq k n" by (simp add: numbered_def k)
    from Cons.IH[OF rec] show ?thesis
      by (auto simp: True nb lookup_setitem split: list.splits)
  qed
qed

lemma merge_issues_entries:
  assumes "merge_issues sip items (d, c) = Inr (d', c')" and "\<forall>m. entries m d \<le> 1"
  shows "\<forall>m. entries m d' \<le> 1"
  using assms
proof (induction items arbitrary: d c)
  case Nil
  then show ?case by simp
next
  case (Cons i items)
  show ?case
  proof (cases "kept_issue sip i")
    case False
    with Cons.prems have "merge_issues sip items (d, c + 1) = Inr (d', c')"
      by (auto simp: kept_issue_def split: sum.splits if_splits)
    from Cons.IH[OF this Cons.prems(2)] show ?thesis .
  next
    case True
    with Cons.prems obtain k where
      rec: "merge_issues sip items (setitem key_eq k i d, c) = Inr (d', c')"
      by (auto simp: kept_issue_def store_def split: sum.splits if_splits)
    have "\<forall>m. entries m (setitem key_eq k i d) \<le> 1"
      using entries_setitem[OF Cons.prems(2)] by blast
    from Cons.IH[OF rec this] show ?thesis .
  qed
qed


lemma issues_of_states_two:
  assumes "issues_of_states e template sip [''open'', ''closed''] acc st = Some (Inr res, st')"
  shows "\<exists>open_issues closed_issues st1 acc1.
           retrieve_data e template (Some (issue_query st ''open'')) False st
             = Some (Inr open_issues, st1)
         \<and> merge_issues sip open_issues acc = Inr acc1
         \<and> retrieve_data e template (Some (issue_query st1 ''closed'')) False st1
             = Some (Inr closed_issues, st')
         \<and> merge_issues sip closed_issues acc1 = Inr res"
  using assms
  by (auto simp: Let_def split: option.splits sum.splits prod.splits)

lemma fetch_page_answered_by:
  assumes "fst (construct_request 100 (int page) query_args template auth (as_app (args st)) st) = rq"
    and "srv e (calls st) rq = Returns r"
    and "throttle_limit (args st) = 0" and "code r \<noteq> 502"
  shows "fetch_page e template query_args auth page st =
         Some (Inr (r, []), snd (urlopen e rq (log_info ''Requesting {}?{}'' st)))"
  using fetch_page_answered[of e st page query_args template auth r] assms by simp

text \<open>
  C7, the counterexample. Pull request 5 is in the listing of issues, open at the first
  request and closed at the second, and pull requests are backed up as well (\<^verbatim>\<open>--pulls\<close> or
  \<^verbatim>\<open>--all\<close>): both issues carry the same number, both are skipped, and the merged set has no
  entry for the number.
\<close>

theorem same_number_skipped_counterexample:
  "returned (issues_of_states pull_issues_env ''t'' True [''open'', ''closed''] ([], 0) state0)
     = Some (Inr ([], 2))
   \<and> numbered (JInt 5) pull_5_open \<and> numbered (JInt 5) pull_5_closed
   \<and> lookup ([] :: (json \<times> json) list) (JInt 5) = None
   \<and> entries (JInt 5) ([] :: (json \<times> json) list) = 0"
proof -
  let ?qo = "[(''filter'', JStr ''all''), (''state'', JStr ''open'')]"
  let ?qc = "[(''filter'', JStr ''all''), (''state'', JStr ''closed'')]"
  let ?ro = "\<lparr>req_url = ''t'', req_query = [(''per_page'', JInt 100), (''page'', JInt 1),
               (''filter'', JStr ''all''), (''state'', JStr ''open'')], req_headers = []\<rparr>"
  let ?rc = "\<lparr>req_url = ''t'', req_query = [(''per_page'', JInt 100), (''page'', JInt 1),
               (''filter'', JStr ''all''), (''state'', JStr ''closed'')], req_headers = []\<rparr>"
  let ?st1 = "snd (urlopen pull_issues_env ?ro (log_info ''Requesting {}?{}'' state0))"
  let ?st2 = "snd (urlopen pull_issues_env ?rc (log_info ''Requesting {}?{}'' ?st1))"
  have q: "issue_query st s = [(''filter'', JStr ''all''), (''state'', JStr s)]"
    if "args st = args0" for st s
    by (simp add: issue_query_def that args0_def given_def)
  have a1: "args ?st1 = args0" by simp
  have f1: "fetch_page pull_issues_env ''t'' ?qo None (Suc 0) state0
            = Some (Inr (ok (JList [pull_5_open]), []), ?st1)"
    by (rule fetch_page_answered_by)
       (simp_all add: pull_issues_env_def construct_request_fst dict_of_def)
  have f2: "fetch_page pull_issues_env ''t'' ?qc None (Suc 0) ?st1
            = Some (Inr (ok (JList [pull_5_closed]), []), ?st2)"
    by (rule fetch_page_answered_by)
       (simp_all add: pull_issues_env_def construct_request_fst dict_of_def)
  have r1: "retrieve_data pull_issues_env ''t'' (Some (issue_query state0 ''open'')) False state0
            = Some (Inr [pull_5_open], ?st1)"
    unfolding q[OF state0_simps(1)]
    by (simp add: retrieve_data_def retrieve_data_gen_def get_query_args_def
        retrieve_data_gen_loop_step[OF f1] page_body_def collect_def)
  have r2: "retrieve_data pull_issues_env ''t'' (Some (issue_query ?st1 ''closed'')) False ?st1
            = Some (Inr [pull_5_closed], ?st2)"
    unfolding q[OF a1]
    by (simp add: retrieve_data_def retrieve_data_gen_def get_query_args_def
        retrieve_data_gen_loop_step[OF f2] page_body_def collect_def)
  have m: "merge_issues True [pull_5_closed] ([], Suc 0) = Inr ([], 2)"
    "merge_issues True [pull_5_open] ([], 0) = Inr ([], Suc 0)"
    by (simp_all add: pull_5_open_def pull_5_closed_def contains_def)
  have run: "issues_of_states pull_issues_env ''t'' True [''open'', ''closed''] ([], 0) state0
             = Some (Inr ([], 2), ?st2)"
    using r1 r2 m by (simp add: Let_def del: merge_issues.simps)
  have n: "numbered (JInt 5) pull_5_open" "numbered (JInt 5) pull_5_closed"
    by (simp_all add: numbered_def pull_5_open_def pull_5_closed_def getitem_def key_eq_def)
  from run n show ?thesis by (simp add: returned_def entries_def)
qed

text \<open>
  C7, as the code has it. An issue that carries the key \<^verbatim>\<open>pull_request\<close> is skipped when pull
  requests are backed up as well; every other issue is kept. A run of the loop over the two
  states that ends normally has fetched the open issues
  and then the closed ones. For an issue \<open>a\<close> of the open pass and an issue \<open>b\<close> of the closed
  pass that carry the same number, both kept (not skipped as pull requests), \<open>b\<close> being the
  last kept issue with that number in its pass: the merged set holds exactly one entry for
  the number, and it is \<open>b\<close>.
\<close>

theorem same_number_last_write_wins:
  assumes "issues_of_states e template sip [''open'', ''closed''] ([], 0) st
             = Some (Inr (issues, skipped), st')"
  shows "\<exists>open_issues closed_issues st1.
           retrieve_data e template (Some (issue_query st ''open'')) False st
             = Some (Inr open_issues, st1)
         \<and> retrieve_data e template (Some (issue_query st1 ''closed'')) False st1
             = Some (Inr closed_issues, st')
         \<and> (\<forall>a b n before after.
               a \<in> set open_issues \<and> kept_issue sip a \<and> numbered n a
               \<and> closed_issues = before @ b # after \<and> kept_issue sip b \<and> numbered n b
               \<and> (\<forall>c \<in> set after. \<not> (kept_issue sip c \<and> numbered n c))
               \<longrightarrow> lookup issues n = Some b \<and> entries n issues = 1)"
proof -
  from issues_of_states_two[OF assms] obtain open_issues closed_issues st1 d1 c1 where
    o: "retrieve_data e template (Some (issue_query st ''open'')) False st
          = Some (Inr open_issues, st1)"
    and mo: "merge_issues sip open_issues ([], 0) = Inr (d1, c1)"
    and c: "retrieve_data e template (Some (issue_query st1 ''closed'')) False st1
          = Some (Inr closed_issues, st')"
    and mc: "merge_issues sip closed_issues (d1, c1) = Inr (issues, skipped)"
    by (metis surj_pair)
  have one: "\<forall>m. entries m issues \<le> 1"
    using merge_issues_entries[OF mc merge_issues_entries[OF mo]] by (simp add: entries_def)
  have "lookup issues n = Some b \<and> entries n issues = 1"
    if "closed_issues = before @ b # after" "kept_issue sip b" "numbered n b"
      "\<forall>c \<in> set after. \<not> (kept_issue sip c \<and> numbered n c)"
    for b n before after
  proof -
    have "filter (\<lambda>i. kept_issue sip i \<and> numbered n i) after = []"
      using that(4) by (auto simp: filter_empty_conv)
    then have "filter (\<lambda>i. kept_issue sip i \<and> numbered n i) closed_issues
          = filter (\<lambda>i. kept_issue sip i \<and> numbered n i) before @ [b]"
      by (simp add: that(1,2,3))
    then have l: "lookup issues n = Some b"
      using merge_issues_lookup[OF mc, of n]
      by (cases "filter (\<lambda>i. kept_issue sip i \<and> numbered n i) before") simp_all
    from lookup_entries[OF l] one have "entries n issues = 1"
      by (metis le_antisym)
    with l show ?thesis by simp
  qed
  with o c show ?thesis by blast
qed


text \<open>The theorem on the test bed: issue 5 is listed as open at the first request and as
  closed at the second; the merged set has the closed one, once.\<close>

theorem same_number_last_write_wins_witness:
  "returned (issues_of_states issues_env ''t'' False [''open'', ''closed''] ([], 0) state0)
     = Some (Inr ([(JInt 5, issue_5_closed)], 0))
   \<and> lookup [(JInt 5, issue_5_closed)] (JInt 5) = Some issue_5_closed
   \<and> entries (JInt 5) [(JInt 5, issue_5_closed)] = 1"
proof -
  let ?qo = "[(''filter'', JStr ''all''), (''state'', JStr ''open'')]"
  let ?qc = "[(''filter'', JStr ''all''), (''state'', JStr ''closed'')]"
  let ?ro = "\<lparr>req_url = ''t'', req_query = [(''per_page'', JInt 100), (''page'', JInt 1),
               (''filter'', JStr ''all''), (''state'', JStr ''open'')], req_headers = []\<rparr>"
  let ?rc = "\<lparr>req_url = ''t'', req_query = [(''per_page'', JInt 100), (''page'', JInt 1),
               (''filter'', JStr ''all''), (''state'', JStr ''closed'')], req_headers = []\<rparr>"
  let ?st1 = "snd (urlopen issues_env ?ro (log_info ''Requesting {}?{}'' state0))"
  let ?st2 = "snd (urlopen issues_env ?rc (log_info ''Requesting {}?{}'' ?st1))"
  have q: "issue_query st s = [(''filter'', JStr ''all''), (''state'', JStr s)]"
    if "args st = args0" for st s
    by (simp add: issue_query_def that args0_def given_def)
  have a1: "args ?st1 = args0" by simp
  have f1: "fetch_page issues_env ''t'' ?qo None (Suc 0) state0
            = Some (Inr (ok (JList [issue_5_open]), []), ?st1)"
    by (rule fetch_page_answered_by)
       (simp_all add: issues_env_def construct_request_fst dict_of_def)
  have f2: "fetch_page issues_env ''t'' ?qc None (Suc 0) ?st1
            = Some (Inr (ok (JList [issue_5_closed]), []), ?st2)"
    by (rule fetch_page_answered_by)
       (simp_all add: issues_env_def construct_request_fst dict_of_def)
  have r1: "retrieve_data issues_env ''t'' (Some (issue_query state0 ''open'')) False state0
            = Some (Inr [issue_5_open], ?st1)"
    unfolding q[OF state0_simps(1)]
    by (simp add: retrieve_data_def retrieve_data_gen_def get_query_args_def
        retrieve_data_gen_loop_step[OF f1] page_body_def collect_def)
  have r2: "retrieve_data issues_env ''t'' (Some (issue_query ?st1 ''closed'')) False ?st1
            = Some (Inr [issue_5_closed], ?st2)"
    unfolding q[OF a1]
    by (simp add: retrieve_data_def retrieve_data_gen_def get_query_args_def
        retrieve_data_gen_loop_step[OF f2] page_body_def collect_def)
  have k: "kept_issue False issue_5_open" "numbered (JInt 5) issue_5_open"
    "kept_issue False issue_5_closed" "numbered (JInt 5) issue_5_closed"
    by (simp_all add: kept_issue_def numbered_def issue_5_open_def issue_5_closed_def
        contains_def getitem_def)
  have m: "merge_issues False [issue_5_closed] ([(JInt 5, issue_5_open)], 0)
           = Inr ([(JInt 5, issue_5_closed)], 0)"
    "merge_issues False [issue_5_open] ([], 0) = Inr ([(JInt 5, issue_5_open)], 0)"
    by (simp_all add: issue_5_open_def issue_5_closed_def contains_def getitem_def
        store_def key_eq_def)
  have run: "issues_of_states issues_env ''t'' False [''open'', ''closed''] ([], 0) state0
             = Some (Inr ([(JInt 5, issue_5_closed)], 0), ?st2)"
    using r1 r2 m by (simp add: Let_def del: merge_issues.simps)
  from same_number_last_write_wins[OF run] obtain open_issues closed_issues st1 where
    o: "retrieve_data issues_env ''t'' (Some (issue_query state0 ''open'')) False state0
          = Some (Inr open_issues, st1)"
    and c: "retrieve_data issues_env ''t'' (Some (issue_query st1 ''closed'')) False st1
          = Some (Inr closed_issues, ?st2)"
    and p: "\<And>a b n before after.
               a \<in> set open_issues \<and> kept_issue False a \<and> numbered n a
               \<and> closed_issues = before @ b # after \<and> kept_issue False b \<and> numbered n b
               \<and> (\<forall>c \<in> set after. \<not> (kept_issue False c \<and> numbered n c))
               \<Longrightarrow> lookup [(JInt 5, issue_5_closed)] n = Some b
                   \<and> entries n [(JInt 5, issue_5_closed)] = 1"
    by blast
  from o r1 have o': "open_issues = [issue_5_open]" "st1 = ?st1" by simp_all
  from c r2 o' have c': "closed_issues = [issue_5_closed]" by simp
  from p[of issue_5_open "JInt 5" "[]" issue_5_closed "[]"] k o' c'
  have "lookup [(JInt 5, issue_5_closed)] (JInt 5) = Some issue_5_closed
        \<and> entries (JInt 5) [(JInt 5, issue_5_closed)] = 1"
    by simp
  with run show ?thesis by (simp add: returned_def)
qed

subsection \<open>No step of a run changes the option \<^verbatim>\<open>incremental\<close>\<close>

lemma incremental_logs [simp]:
  "incremental (args (log_info m st)) = incremental (args st)"
  "incremental (args (log_warning m st)) = incremental (args st)"
  "incremental (args (log_warnings ms st)) = incremental (args st)"
  "incremental (args (sleep d st)) = incremental (args st)"
  "incremental (args (snd (urlopen e rq st))) = incremental (args st)"
  "incremental (args (write_json e path data st)) = incremental (args st)"
  "incremental (args (write_text path text st)) = incremental (args st)"
  "incremental (args (logging_subprocess cmd cwd st)) = incremental (args st)"
  by (simp_all add: log_info_def log_warning_def log_warnings_def sleep_def urlopen_def
      write_json_def write_text_def logging_subprocess_def)

lemma incremental_log_error:
  "log_error m st = (r, st') \<Longrightarrow> incremental (args st') = incremental (args st)"
  "log_errors ms st = (r', st') \<Longrightarrow> incremental (args st') = incremental (args st)"
  "log_warning_obj why st = (r'', st') \<Longrightarrow> incremental (args st') = incremental (args st)"
  by (auto simp: log_error_def log_errors_def log_warning_obj_def split: option.splits)

lemma incremental_request_url_error:
  "request_url_error template rt st = (r, st') \<Longrightarrow> incremental (args st') = incremental (args st)"
  by (auto simp: request_url_error_def Let_def log_error_def split: if_splits)

lemma incremental_request_http_error:
  "request_http_error exc auth errors st = (r, st')
   \<Longrightarrow> incremental (args st') = incremental (args st)"
  by (auto simp: request_http_error_def Let_def split: if_splits)

lemma incremental_get_response_loop:
  assumes "get_response_loop e request auth template rt errors st = Some y"
  shows "incremental (args (snd y)) = incremental (args st)"
proof (rule get_response_loop.raw_induct
    [where P = "\<lambda>e request auth template rt errors st y.
                  incremental (args (snd y)) = incremental (args st)",
     OF _ assms], goal_cases)
  case (1 loop e request auth template rt errors st y)
  have u: "incremental (args st1) = incremental (args st)"
    if "urlopen e request st = (h, st1)" for h st1
    using incremental_logs(5)[of e request st] that by simp
  show ?case using 1(2)
    by (auto split: prod.splits http_result.splits sum.splits if_splits
        dest!: 1(1) u incremental_log_error(3) incremental_request_url_error
          incremental_request_http_error)
qed

lemma incremental_get_response:
  "get_response e request auth template st = Some (r, st')
   \<Longrightarrow> incremental (args st') = incremental (args st)"
  using incremental_get_response_loop[of e request auth template 3 "[]" st "(r, st')"]
  by (simp add: get_response_def)

lemma incremental_construct_request:
  "construct_request per_page page q t auth app st = (rq, st')
   \<Longrightarrow> incremental (args st') = incremental (args st)"
  by (auto simp: construct_request_def Let_def)

lemma incremental_get_auth:
  "get_auth e encode for_git_cli st = (r, st')
   \<Longrightarrow> incremental (args st') = incremental (args st)"
  by (auto simp: get_auth_def Let_def log_error_def log_warning_def
      split: if_splits option.splits prod.splits sum.splits)


lemma incremental_retry_502:
  "retry_502 e template query_args auth page retries (r0, errors0) st = Some (r, st')
   \<Longrightarrow> incremental (args st') = incremental (args st)"
proof (induction "3 - retries" arbitrary: retries r0 errors0 st)
  case 0
  then show ?case by (subst (asm) retry_502.simps) auto
next
  case (Suc n)
  show ?case
  proof (cases "retries < 3 \<and> code r0 = 502")
    case False
    with Suc.prems show ?thesis by (subst (asm) retry_502.simps) auto
  next
    case True
    let ?st2 = "sleep 5 (log_warning ''API request returned HTTP 502: Bad Gateway. Retrying in 5 seconds'' st)"
    obtain request st3 where
      c: "construct_request 100 (int page) query_args template auth (as_app (args ?st2)) ?st2
          = (request, st3)" by (meson surj_pair)
    have i3: "incremental (args st3) = incremental (args st)"
      using incremental_construct_request[OF c] by simp
    from Suc.prems True c
    consider (stop) x where "get_response e request auth template st3 = Some (Inl x, st')"
      | (go) r' errors' st4 where
          "get_response e request auth template st3 = Some (Inr (r', errors'), st4)"
          "retry_502 e template query_args auth page (retries + 1) (r', errors') st4 = Some (r, st')"
      by (subst (asm) retry_502.simps)
         (auto simp: Let_def split: option.splits sum.splits prod.splits)
    then show ?thesis
    proof cases
      case stop
      from incremental_get_response[OF stop] i3 show ?thesis by simp
    next
      case go
      from Suc.hyps(2) have "n = 3 - (retries + 1)" by simp
      from Suc.hyps(1)[OF this go(2)] incremental_get_response[OF go(1)] i3
      show ?thesis by simp
    qed
  qed
qed

lemma incremental_fetch_page:
  assumes "fetch_page e template query_args auth page st = Some (r, st')"
  shows "incremental (args st') = incremental (args st)"
proof -
  obtain request st1 where
    c: "construct_request 100 (int page) query_args template auth (as_app (args st)) st
        = (request, st1)" by (meson surj_pair)
  from assms c show ?thesis
    by (cases r)
       (auto simp: fetch_page_def Let_def
        split: option.splits sum.splits prod.splits if_splits
        dest!: incremental_get_response incremental_retry_502 incremental_construct_request)
qed

text \<open>A consumer that keeps the option.\<close>

lemma incremental_feed:
  assumes "\<forall>acc x st r st'. consume acc x st = Some (r, st')
             \<longrightarrow> incremental (args st') = incremental (args st)"
    and "feed consume acc xs st = Some (r, st')"
  shows "incremental (args st') = incremental (args st)"
  using assms(2)
proof (induction xs arbitrary: acc st)
  case Nil
  then show ?case by simp
next
  case (Cons x xs)
  from Cons.prems show ?case
    by (auto split: option.splits sum.splits prod.splits ctl.splits
        dest!: assms(1)[rule_format] Cons.IH)
qed

lemma incremental_page_body:
  assumes "\<forall>acc x st r st'. consume acc x st = Some (r, st')
             \<longrightarrow> incremental (args st') = incremental (args st)"
    and "page_body consume single_request fetched acc st = Some (r, st')"
  shows "incremental (args st') = incremental (args st)"
  using assms(2)
  by (auto simp: page_body_def log_errors_def
      split: option.splits sum.splits prod.splits ctl.splits json.splits if_splits
      dest!: assms(1)[rule_format] incremental_feed[OF assms(1)])

lemma incremental_retrieve_data_gen_loop:
  assumes keeps: "\<forall>acc x st r st'. consume acc x st = Some (r, st')
             \<longrightarrow> incremental (args st') = incremental (args st)"
    and run: "retrieve_data_gen_loop e consume template query_args single_request auth page acc st
         = Some y"
  shows "incremental (args (snd y)) = incremental (args st)"
proof (rule retrieve_data_gen_loop.raw_induct
    [where P = "\<lambda>e c template query_args single_request auth page acc st y.
                  c = consume \<longrightarrow> incremental (args (snd y)) = incremental (args st)",
     OF _ run, THEN mp, OF _ refl], goal_cases)
  case (1 loop e c template query_args single_request auth page acc st y)
  show ?case
  proof
    assume "c = consume"
    with 1(2) show "incremental (args (snd y)) = incremental (args st)"
      by (auto split: option.splits sum.splits prod.splits step.splits
          dest!: 1(1)[THEN mp, OF _ refl] incremental_fetch_page
            incremental_page_body[OF keeps])
  qed
qed

lemma incremental_retrieve_data_gen:
  assumes "\<forall>acc x st r st'. consume acc x st = Some (r, st')
             \<longrightarrow> incremental (args st') = incremental (args st)"
    and "retrieve_data_gen e consume template query_args single_request acc st = Some (r, st')"
  shows "incremental (args st') = incremental (args st)"
proof -
  obtain a st1 where g: "get_auth e (\<not> as_app (args st)) False st = (a, st1)"
    by (meson surj_pair)
  from assms(2) g incremental_get_auth[OF g] show ?thesis
    by (auto simp: retrieve_data_gen_def split: sum.splits
        dest!: incremental_retrieve_data_gen_loop[OF assms(1)])
qed

lemma incremental_retrieve_data:
  "retrieve_data e template query_args single_request st = Some (r, st')
   \<Longrightarrow> incremental (args st') = incremental (args st)"
  unfolding retrieve_data_def
  by (erule incremental_retrieve_data_gen[rotated]) (auto simp: collect_def)


lemma incremental_mkdir_p:
  "mkdir_p paths st = (r, st') \<Longrightarrow> incremental (args st') = incremental (args st)"
  by (induction paths st rule: mkdir_p.induct) (auto split: if_splits)

lemma incremental_issues_of_states:
  "issues_of_states e template should_include_pulls states acc st = Some (r, st')
   \<Longrightarrow> incremental (args st') = incremental (args st)"
proof (induction states arbitrary: acc st)
  case Nil
  then show ?case by auto
next
  case (Cons a states)
  from Cons.prems show ?case
    by (auto simp: Let_def split: option.splits sum.splits prod.splits
        dest!: incremental_retrieve_data Cons.IH)
qed

lemma incremental_attach:
  "attach e wanted template field item st = Some (r, st')
   \<Longrightarrow> incremental (args st') = incremental (args st)"
  by (auto simp: attach_def split: if_splits option.splits sum.splits prod.splits
      dest!: incremental_retrieve_data)

lemma incremental_save_issues:
  "save_issues e template issue_cwd issues st = Some (r, st')
   \<Longrightarrow> incremental (args st') = incremental (args st)"
proof (induction issues arbitrary: st)
  case Nil
  then show ?case by auto
next
  case (Cons a issues)
  obtain number issue where a: "a = (number, issue)" by (cases a)
  from Cons.prems show ?case unfolding a
    by (auto split: option.splits sum.splits prod.splits
        dest!: incremental_attach Cons.IH)
qed

lemma incremental_backup_issues:
  "backup_issues e repo_cwd repository repos_template st = Some (r, st')
   \<Longrightarrow> incremental (args st') = incremental (args st)"
  by (auto simp: backup_issues_def Let_def
      simp del: mkdir_p.simps issues_of_states.simps save_issues.simps
      split: if_splits option.splits sum.splits prod.splits
      dest!: incremental_mkdir_p incremental_issues_of_states incremental_save_issues)

lemma incremental_pull_body:
  "pull_body pulls pull st = Some (r, st')
   \<Longrightarrow> incremental (args st') = incremental (args st)"
  by (auto simp: pull_body_def split: sum.splits verdict.splits)

lemma incremental_pull_body_details:
  "pull_body_details e pulls_template pulls pull st = Some (r, st')
   \<Longrightarrow> incremental (args st') = incremental (args st)"
  by (auto simp: pull_body_details_def
      split: sum.splits verdict.splits option.splits prod.splits list.splits
      dest!: incremental_retrieve_data)

lemma incremental_pulls_of_states:
  "pulls_of_states e template query_args states pulls st = Some (r, st')
   \<Longrightarrow> incremental (args st') = incremental (args st)"
proof (induction states arbitrary: query_args pulls st)
  case Nil
  then show ?case by auto
next
  case (Cons a states)
  have k: "\<forall>acc x st r st'. pull_body acc x st = Some (r, st')
             \<longrightarrow> incremental (args st') = incremental (args st)"
    using incremental_pull_body by blast
  from Cons.prems show ?case
    by (auto simp: Let_def split: option.splits sum.splits prod.splits
        dest!: incremental_retrieve_data_gen[OF k] Cons.IH)
qed

lemma incremental_gather_pulls:
  "gather_pulls e pulls_template st = Some (r, st')
   \<Longrightarrow> incremental (args st') = incremental (args st)"
proof -
  have k: "\<forall>acc x st r st'. pull_body_details e pulls_template acc x st = Some (r, st')
             \<longrightarrow> incremental (args st') = incremental (args st)"
    using incremental_pull_body_details by blast
  show "gather_pulls e pulls_template st = Some (r, st')
   \<Longrightarrow> incremental (args st') = incremental (args st)"
    by (auto simp: gather_pulls_def Let_def simp del: pulls_of_states.simps split: if_splits
        dest!: incremental_retrieve_data_gen[OF k] incremental_pulls_of_states)
qed

lemma incremental_save_pulls:
  "save_pulls e template pulls_cwd pulls st = Some (r, st')
   \<Longrightarrow> incremental (args st') = incremental (args st)"
proof (induction pulls arbitrary: st)
  case Nil
  then show ?case by auto
next
  case (Cons a pulls)
  obtain number pull where a: "a = (number, pull)" by (cases a)
  from Cons.prems show ?case unfolding a
    by (auto split: option.splits sum.splits prod.splits
        dest!: incremental_attach Cons.IH)
qed

lemma incremental_backup_pulls:
  "backup_pulls e repo_cwd repository repos_template st = Some (r, st')
   \<Longrightarrow> incremental (args st') = incremental (args st)"
  by (auto simp: backup_pulls_def Let_def simp del: mkdir_p.simps save_pulls.simps
      split: if_splits option.splits sum.splits prod.splits
      dest!: incremental_mkdir_p incremental_gather_pulls incremental_save_pulls)

lemma incremental_save_milestones [simp]:
  "incremental (args (save_milestones e milestone_cwd milestones st)) = incremental (args st)"
  by (induction e milestone_cwd milestones st rule: save_milestones.induct) simp_all

lemma incremental_backup_milestones:
  "backup_milestones e repo_cwd repository repos_template st = Some (r, st')
   \<Longrightarrow> incremental (args st') = incremental (args st)"
  by (auto simp: backup_milestones_def Let_def simp del: mkdir_p.simps
      split: if_splits option.splits sum.splits prod.splits
      dest!: incremental_mkdir_p incremental_retrieve_data)

lemma incremental_backup_data:
  "backup_data e name template output_file output_directory st = Some (r, st')
   \<Longrightarrow> incremental (args st') = incremental (args st)"
  by (auto simp: backup_data_def Let_def simp del: mkdir_p.simps
      split: if_splits option.splits sum.splits prod.splits
      dest!: incremental_mkdir_p incremental_retrieve_data)

lemma incremental_backup_labels:
  "backup_labels e repo_cwd repository repos_template st = Some (r, st')
   \<Longrightarrow> incremental (args st') = incremental (args st)"
  by (auto simp: backup_labels_def Let_def split: sum.splits dest!: incremental_backup_data)

lemma incremental_backup_hooks:
  "backup_hooks e repo_cwd repository repos_template st = Some (r, st')
   \<Longrightarrow> incremental (args st') = incremental (args st)"
  by (auto simp: backup_hooks_def Let_def
      split: if_splits option.splits sum.splits prod.splits
      dest!: incremental_backup_data incremental_get_auth)

lemma incremental_download_file:
  "download_file e url path auth st = (r, st')
   \<Longrightarrow> incremental (args st') = incremental (args st)"
  by (auto simp: download_file_def split: if_splits option.splits download_result.splits)

lemma incremental_download_assets:
  "download_assets e release_assets_cwd assets st = (r, st')
   \<Longrightarrow> incremental (args st') = incremental (args st)"
proof (induction assets arbitrary: st)
  case Nil
  then show ?case by auto
next
  case (Cons a assets)
  from Cons.prems show ?case
    by (auto split: sum.splits prod.splits
        dest!: incremental_get_auth incremental_download_file Cons.IH)
qed

lemma incremental_save_releases:
  "save_releases e release_cwd include_assets' releases st = Some (r, st')
   \<Longrightarrow> incremental (args st') = incremental (args st)"
proof (induction releases arbitrary: st include_assets')
  case Nil
  then show ?case by auto
next
  case (Cons a releases)
  from Cons.prems show ?case
    by (auto simp: Let_def simp del: mkdir_p.simps
        split: if_splits option.splits sum.splits prod.splits
        dest!: incremental_retrieve_data incremental_mkdir_p incremental_download_assets Cons.IH)
qed

lemma incremental_backup_releases:
  "backup_releases e repo_cwd repository repos_template include_assets' st = Some (r, st')
   \<Longrightarrow> incremental (args st') = incremental (args st)"
  by (auto simp: backup_releases_def Let_def simp del: mkdir_p.simps save_releases.simps
      split: if_splits option.splits sum.splits prod.splits
      dest!: incremental_mkdir_p incremental_retrieve_data incremental_save_releases)

lemma incremental_fetch_repository:
  "fetch_repository e name remote_url local_dir skip_existing' bare_clone' lfs_clone' st = (r, st')
   \<Longrightarrow> incremental (args st') = incremental (args st)"
  by (auto simp: fetch_repository_def Let_def
      split: if_splits option.splits sum.splits prod.splits)

lemma incremental_get_github_repo_url:
  "get_github_repo_url e repository st = (r, st')
   \<Longrightarrow> incremental (args st') = incremental (args st)"
  by (auto simp: get_github_repo_url_def
      split: if_splits option.splits sum.splits prod.splits
      dest!: incremental_get_auth)

lemma and_then_keeps:
  assumes "and_then r k = Some (res, st')"
    and "\<And>r1 s1. r = Some (r1, s1) \<Longrightarrow> incremental (args s1) = B"
    and "\<And>s1. incremental (args s1) = B \<Longrightarrow> k s1 = Some (res, st')
           \<Longrightarrow> incremental (args st') = B"
  shows "incremental (args st') = B"
  using assms by (auto simp: and_then_def split: option.splits sum.splits prod.splits)

lemma incremental_backup_resources:
  "backup_resources e repos_template repo_cwd repo_url repository st = Some (r, st')
   \<Longrightarrow> incremental (args st') = incremental (args st)"
  unfolding backup_resources_def
  apply (cases "getitem repository ''has_wiki''")
   apply simp
  apply (simp only: sum.case)
  apply (erule and_then_keeps)
   apply (auto split: if_splits sum.splits json.splits dest!: incremental_fetch_repository)[1]
  apply (erule and_then_keeps)
   apply (auto simp: when_set_def split: if_splits dest!: incremental_backup_issues)[1]
  apply (erule and_then_keeps)
   apply (auto simp: when_set_def split: if_splits dest!: incremental_backup_pulls)[1]
  apply (erule and_then_keeps)
   apply (auto simp: when_set_def split: if_splits dest!: incremental_backup_milestones)[1]
  apply (erule and_then_keeps)
   apply (auto simp: when_set_def split: if_splits dest!: incremental_backup_labels)[1]
  apply (erule and_then_keeps)
   apply (auto simp: when_set_def split: if_splits dest!: incremental_backup_hooks)[1]
  apply (auto simp: when_set_def split: if_splits dest!: incremental_backup_releases)
  done

lemma incremental_backup_repository:
  assumes "backup_repository e output_directory repos_template repository st = Some (r, st')"
  shows "incremental (args st') = incremental (args st)"
proof -
  obtain u st1 where g: "get_github_repo_url e repository st = (u, st1)" by (meson surj_pair)
  note i1 = incremental_get_github_repo_url[OF g]
  from assms g i1 show ?thesis
    by (auto simp: backup_repository_def Let_def
        split: sum.splits prod.splits if_splits
        dest!: incremental_fetch_repository incremental_backup_resources)
qed

lemma incremental_backup_each:
  "backup_each e output_directory repos_template repositories st = Some (r, st')
   \<Longrightarrow> incremental (args st') = incremental (args st)"
proof (induction repositories arbitrary: st)
  case Nil
  then show ?case by auto
next
  case (Cons a repositories)
  from Cons.prems show ?case
    by (auto simp: and_then_def split: option.splits sum.splits prod.splits
        dest!: incremental_backup_repository Cons.IH)
qed

subsection \<open>The cutoff that a run writes\<close>

lemma run_of_one_repository:
  assumes "args st = args0\<lparr>incremental := True, since := snc\<rparr>"
    and "files st ''out/last_update'' = w" and "''out/last_update'' \<notin> dirs st"
  shows "\<exists>st'. backup_repositories env0 ''out''
                  [JDict [(''name'', JStr n), (''clone_url'', JStr u),
                          (''has_wiki'', JBool False), (''updated_at'', JStr d)]] st
               = Some (Inr (), st')
           \<and> args st' = args0\<lparr>incremental := True, since := map_option strip w\<rparr>
           \<and> files st' ''out/last_update'' = Some d \<and> dirs st' = dirs st"
proof -
  have p: "path_join ''out'' ''last_update'' = ''out/last_update''"
    by (simp add: path_join_def startswith_def)
  show ?thesis
    using assms
    apply (simp add: backup_repositories_def Let_def read_since_def compute_last_update_def p
        log_info_def path_exists_def read_file_def getitem_def)
    apply (auto simp: backup_repository_def repo_cwd_of_def get_def get_default_def
        get_github_repo_url_def args0_def get_auth_def given_def Let_def getitem_def and_then_def
        when_set_def backup_resources_def write_last_update_def write_text_def p as_str_def
        split: option.splits)
    done
qed

lemma max_from_string:
  "max_from m xs = Inr (JStr u)
   \<Longrightarrow> (\<exists>a. m = JStr a \<and> a \<le> u) \<and> (\<forall>x \<in> set xs. \<exists>b. x = JStr b \<and> b \<le> u)
       \<and> JStr u \<in> set (m # xs)"
proof (induction xs arbitrary: m)
  case Nil
  then show ?case by simp
next
  case (Cons x xs)
  from Cons.prems obtain g where g: "gt x m = Inr g"
    by (auto split: sum.splits)
  show ?case
  proof (cases g)
    case True
    with Cons.prems g have "max_from x xs = Inr (JStr u)" by simp
    from Cons.IH[OF this] obtain b where
      b: "x = JStr b" "b \<le> u" and rest: "\<forall>x \<in> set xs. \<exists>b. x = JStr b \<and> b \<le> u"
      and mem: "JStr u \<in> set (x # xs)" by blast
    from g True b(1) obtain a where "m = JStr a" "a < b"
      by (auto simp: gt_def split: json.splits option.splits)
    with b rest mem show ?thesis by auto
  next
    case False
    with Cons.prems g have "max_from m xs = Inr (JStr u)" by simp
    from Cons.IH[OF this] obtain a where
      a: "m = JStr a" "a \<le> u" and rest: "\<forall>x \<in> set xs. \<exists>b. x = JStr b \<and> b \<le> u"
      and mem: "JStr u \<in> set (m # xs)" by blast
    from g False a(1) obtain b where "x = JStr b" "\<not> a < b"
      by (auto simp: gt_def split: json.splits option.splits)
    with a rest mem show ?thesis by auto
  qed
qed

lemma updated_ats_items:
  "updated_ats repositories = Inr us
   \<Longrightarrow> list_all2 (\<lambda>r u. getitem r ''updated_at'' = Inr u) repositories us"
  by (induction repositories arbitrary: us) (auto split: sum.splits)

lemma list_all2_left: "list_all2 P xs ys \<Longrightarrow> x \<in> set xs \<Longrightarrow> \<exists>y \<in> set ys. P x y"
  by (induction rule: list_all2_induct) auto

lemma list_all2_right: "list_all2 P xs ys \<Longrightarrow> y \<in> set ys \<Longrightarrow> \<exists>x \<in> set xs. P x y"
  by (induction rule: list_all2_induct) auto

lemma compute_last_update_newest:
  assumes "compute_last_update e repositories st = Inr (JStr u)"
  shows "(\<forall>r \<in> set repositories. stamp r \<le> u)
         \<and> (if repositories = [] then u = localtime e (clock st)
            else u \<in> stamp ` set repositories)"
proof (cases "repositories = []")
  case True
  with assms show ?thesis by (simp add: compute_last_update_def)
next
  case False
  from assms obtain us where us: "updated_ats repositories = Inr us"
    by (auto simp: compute_last_update_def split: sum.splits)
  note all = updated_ats_items[OF us]
  with False obtain u0 rest where c: "us = u0 # rest"
    by (cases us) auto
  from assms us c have "max_from u0 rest = Inr (JStr u)"
    by (simp add: compute_last_update_def)
  from max_from_string[OF this] c
  have le: "\<forall>x \<in> set us. \<exists>b. x = JStr b \<and> b \<le> u" and mem: "JStr u \<in> set us" by auto
  have "stamp r \<le> u" if "r \<in> set repositories" for r
  proof -
    from list_all2_left[OF all that]
    obtain x where "x \<in> set us" "getitem r ''updated_at'' = Inr x" by auto
    with le show ?thesis by (auto simp: stamp_def)
  qed
  moreover have "u \<in> stamp ` set repositories"
  proof -
    from list_all2_right[OF all mem]
    obtain r where "r \<in> set repositories" "getitem r ''updated_at'' = Inr (JStr u)" by auto
    then show ?thesis by (force simp: stamp_def)
  qed
  ultimately show ?thesis using False by simp
qed

lemma compute_last_update_log_info [simp]:
  "compute_last_update e repositories (log_info m st) = compute_last_update e repositories st"
  by (simp add: compute_last_update_def log_info_def split: sum.splits)

text \<open>
  C6, the counterexample. Two consecutive incremental runs on the same output directory, both successful: the
  repository that was updated in 2021 is gone at the second run, the one that is left was
  updated in 2020, and the second run writes the older time stamp over the newer one. A run
  writes the newest \<^verbatim>\<open>updated_at\<close> of the repositories it was given, whatever the file held.
\<close>

theorem watermark_goes_back_counterexample:
  "returned first_run = Some (Inr ())
   \<and> watermark ''out'' first_run = Some (Some ''2021-01-01T00:00:00Z'')
   \<and> returned second_run = Some (Inr ())
   \<and> watermark ''out'' second_run = Some (Some ''2020-01-01T00:00:00Z'')
   \<and> \<not> ''2021-01-01T00:00:00Z'' \<le> ''2020-01-01T00:00:00Z''"
proof -
  have p: "path_join ''out'' ''last_update'' = ''out/last_update''"
    by (simp add: path_join_def startswith_def)
  have a0: "args incremental_state = args0\<lparr>incremental := True, since := None\<rparr>"
    by (simp add: incremental_state_def state0_def args0_def)
  have f0: "files incremental_state ''out/last_update'' = None"
    and d0: "''out/last_update'' \<notin> dirs incremental_state"
    by (simp_all add: incremental_state_def state0_def)
  from run_of_one_repository[OF a0 f0 d0, of "''new''" "''https://github.com/octocat/new.git''"
      "''2021-01-01T00:00:00Z''"]
  obtain st1 where
    r1: "first_run = Some (Inr (), st1)"
    and a1: "args st1 = args0\<lparr>incremental := True, since := None\<rparr>"
    and f1: "files st1 ''out/last_update'' = Some ''2021-01-01T00:00:00Z''"
    and d1: "dirs st1 = dirs incremental_state"
    by (auto simp: first_run_def repo_2021_def)
  from d0 d1 have d1': "''out/last_update'' \<notin> dirs st1" by simp
  from run_of_one_repository[OF a1 f1 d1', of "''old''" "''https://github.com/octocat/old.git''"
      "''2020-01-01T00:00:00Z''"]
  obtain st2 where
    r2: "second_run = Some (Inr (), st2)"
    and f2: "files st2 ''out/last_update'' = Some ''2020-01-01T00:00:00Z''"
    by (auto simp: second_run_def r1 repo_2020_def)
  have "\<not> ''2021-01-01T00:00:00Z'' \<le> ''2020-01-01T00:00:00Z''" by code_simp
  then show ?thesis
    by (simp add: returned_def watermark_def p r1 r2 f1 f2)
qed

text \<open>
  C6, as the code has it. A successful incremental run leaves in \<^verbatim>\<open>last_update\<close> the newest
  \<^verbatim>\<open>updated_at\<close> of the repositories it was given (the local time when it was given none),
  whatever the file held before. So the cutoff of the later of two successful runs is not
  older than the cutoff of the earlier one only when the repositories of the later run
  have a newer \<^verbatim>\<open>updated_at\<close> among them.
\<close>

theorem watermark_is_newest_update:
  assumes "incremental (args st)"
    and "backup_repositories e out repositories st = Some (Inr (), st')"
  shows "\<exists>u. compute_last_update e repositories st = Inr (JStr u)
              \<and> files st' (path_join out ''last_update'') = Some u
              \<and> (\<forall>r \<in> set repositories. stamp r \<le> u)
              \<and> (if repositories = [] then u = localtime e (clock st)
                 else u \<in> stamp ` set repositories)"
proof -
  let ?st1 = "log_info ''Backing up repositories'' st"
  from assms(2) obtain lu st2 st3 where
    rs: "read_since e out repositories ?st1 = (Inr lu, st2)"
    and each: "backup_each e out (''https://'' @ get_github_api_host (args ?st1) @ ''/repos'')
                 repositories st2 = Some (Inr (), st3)"
    and wr: "write_last_update out lu st3 = (Inr (), st')"
    by (auto simp: backup_repositories_def Let_def
        split: prod.splits sum.splits option.splits)
  from rs assms(1) have i2: "incremental (args st2)"
    and lu: "compute_last_update e repositories st = Inr (the lu)" "lu \<noteq> None"
    by (auto simp: read_since_def Let_def split: sum.splits if_splits)
  from incremental_backup_each[OF each] i2 have i3: "incremental (args st3)" by simp
  from wr i3 lu(2) obtain u where u: "lu = Some (JStr u)"
    and w: "st' = write_text (path_join out ''last_update'') u st3"
    by (auto simp: write_last_update_def split: option.splits json.splits)
  from lu(1) u have c: "compute_last_update e repositories st = Inr (JStr u)" by simp
  from compute_last_update_newest[OF c] c w show ?thesis
    by (simp add: write_text_def)
qed

theorem watermark_is_newest_update_witness:
  "incremental (args incremental_state)
   \<and> returned first_run = Some (Inr ())
   \<and> compute_last_update env0 [repo_2021] incremental_state = Inr (JStr ''2021-01-01T00:00:00Z'')
   \<and> watermark ''out'' first_run = Some (Some ''2021-01-01T00:00:00Z'')
   \<and> stamp repo_2021 = ''2021-01-01T00:00:00Z''"
proof -
  have a0: "args incremental_state = args0\<lparr>incremental := True, since := None\<rparr>"
    by (simp add: incremental_state_def state0_def args0_def)
  have f0: "files incremental_state ''out/last_update'' = None"
    and d0: "''out/last_update'' \<notin> dirs incremental_state"
    by (simp_all add: incremental_state_def state0_def)
  from run_of_one_repository[OF a0 f0 d0, of "''new''" "''https://github.com/octocat/new.git''"
      "''2021-01-01T00:00:00Z''"]
  obtain st1 where
    r1: "backup_repositories env0 ''out'' [repo_2021] incremental_state = Some (Inr (), st1)"
    by (auto simp: repo_2021_def)
  have i: "incremental (args incremental_state)" by (simp add: a0)
  have c: "compute_last_update env0 [repo_2021] incremental_state
           = Inr (JStr ''2021-01-01T00:00:00Z'')"
    by (simp add: compute_last_update_def repo_2021_def getitem_def)
  have s: "stamp repo_2021 = ''2021-01-01T00:00:00Z''"
    by (simp add: stamp_def repo_2021_def getitem_def)
  from watermark_is_newest_update[OF i r1] c
  have "files st1 (path_join ''out'' ''last_update'') = Some ''2021-01-01T00:00:00Z''"
    by auto
  with i c s r1 show ?thesis
    by (simp add: returned_def watermark_def first_run_def)
qed

subsection \<open>The consumer of pull requests\<close>

lemma pull_body_old:
  assumes "since (args s) = Some c" and "c \<noteq> []" and "is_pull x" and "stamp x < c"
  shows "pull_body acc x s = Some (Inr (Break acc), s)"
  using assms
  by (auto simp: pull_body_def pull_verdict_def is_pull_def stamp_def lt_str_def given_def
      val_def split: sum.splits json.splits)

lemma pull_body_new:
  assumes "since (args s) = Some c" and "c \<noteq> []" and "is_pull x" and "\<not> stamp x < c"
  shows "pull_body acc x s = Some (Inr (Next (setitem key_eq (key_of x) x acc)), s)"
  using assms
  by (auto simp: pull_body_def pull_verdict_def is_pull_def stamp_def key_of_def lt_str_def
      ge_str_def store_def given_def val_def split: sum.splits json.splits)

subsection \<open>Requests in a trace\<close>

lemma requested_append [simp]: "requested u (tr @ tr') = requested u tr @ requested u tr'"
  by (simp add: requested_def)

lemma requested_events [simp]:
  "requested u [] = []"
  "requested u (Urlopen rq # tr) = (if req_url rq = u then [rq] else []) @ requested u tr"
  "requested u (Sleep d # tr) = requested u tr"
  "requested u (Makedirs p # tr) = requested u tr"
  "requested u (Write p c # tr) = requested u tr"
  by (simp_all add: requested_def)

lemma written_append [simp]: "written (tr @ tr') = written tr @ written tr'"
  by (simp add: written_def)

lemma written_events [simp]:
  "written [] = []"
  "written (Urlopen rq # tr) = written tr"
  "written (Sleep d # tr) = written tr"
  "written (Makedirs p # tr) = written tr"
  "written (Write p c # tr) = (p, c) # written tr"
  by (simp_all add: written_def)

text \<open>A page that the server answers at once, whatever the throttle.\<close>

lemma fetch_page_at_once:
  assumes "fst (construct_request 100 (int page) query_args template auth (as_app (args st)) st) = rq"
    and "srv e (calls st) rq = Returns r" and "code r \<noteq> 502"
  shows "\<exists>st1. fetch_page e template query_args auth page st = Some (Inr (r, []), st1)
           \<and> args st1 = args st
           \<and> written (trace st1) = written (trace st)
           \<and> requested u (trace st1)
               = requested u (trace st) @ (if req_url rq = u then [rq] else [])"
proof -
  have cr: "construct_request 100 (int page) query_args template auth (as_app (args st)) st
            = (rq, log_info ''Requesting {}?{}'' st)"
    using assms(1) by (simp add: construct_request_def Let_def)
  show ?thesis
    unfolding fetch_page_def
    apply (subst cr)
    apply (simp add: get_response_def get_response_loop_returns assms(2) Let_def
        retry_502_not_502[OF assms(3)])
    apply (simp add: urlopen_def sleep_def)
    done
qed

subsection \<open>One pass over a listing, up to the first item that is too old\<close>

lemma feed_until_old:
  fixes consume :: "'a consumer"
  assumes old: "\<And>acc x s. good s \<Longrightarrow> x \<in> set xs \<Longrightarrow> stamp x < c
                  \<Longrightarrow> consume acc x s = Some (Inr (Break acc), s)"
    and new: "\<And>acc x s. good s \<Longrightarrow> x \<in> set xs \<Longrightarrow> \<not> stamp x < c
                  \<Longrightarrow> \<exists>s1. consume acc x s = Some (Inr (Next (put x acc)), s1) \<and> good s1
                         \<and> requested t (trace s1) = requested t (trace s)"
    and "good s"
  shows "\<exists>s1. feed consume acc xs s
               = Some (Inr ((if \<exists>x \<in> set xs. stamp x < c then Break else Next)
                             (fold put (takeWhile (\<lambda>x. \<not> stamp x < c) xs) acc)), s1)
           \<and> good s1 \<and> requested t (trace s1) = requested t (trace s)"
  using assms
proof (induction xs arbitrary: acc s)
  case Nil
  then show ?case by simp
next
  case (Cons a xs)
  show ?case
  proof (cases "stamp a < c")
    case True
    with Cons.prems(1)[of s a acc] Cons.prems(3) show ?thesis by simp
  next
    case False
    from Cons.prems(2)[of s a acc] Cons.prems(3) False obtain s1 where
      a: "consume acc a s = Some (Inr (Next (put a acc)), s1)" and i: "good s1"
      and r: "requested t (trace s1) = requested t (trace s)" by auto
    have "\<exists>s2. feed consume (put a acc) xs s1
               = Some (Inr ((if \<exists>x \<in> set xs. stamp x < c then Break else Next)
                             (fold put (takeWhile (\<lambda>x. \<not> stamp x < c) xs) (put a acc))), s2)
           \<and> good s2 \<and> requested t (trace s2) = requested t (trace s1)"
      using Cons.prems(1,2) i by (intro Cons.IH) auto
    then show ?thesis using a False r by auto
  qed
qed

lemma takeWhile_sorted_filter:
  "sorted_wrt (\<lambda>x y. stamp y \<le> stamp x) xs
   \<Longrightarrow> takeWhile (\<lambda>x. \<not> stamp x < c) xs = filter (\<lambda>x. c \<le> stamp x) xs"
proof (induction xs)
  case Nil
  then show ?case by simp
next
  case (Cons a xs)
  show ?case
  proof (cases "stamp a < c")
    case True
    have "filter (\<lambda>x. c \<le> stamp x) xs = []"
      using Cons.prems True by (auto simp: filter_empty_conv)
    with True show ?thesis by auto
  next
    case False
    with Cons show ?thesis by auto
  qed
qed


lemma pass_until_old:
  fixes consume :: "'a consumer"
  assumes fetch: "\<And>p s. good s \<Longrightarrow> 0 < p \<Longrightarrow> p \<le> N
                  \<Longrightarrow> \<exists>r s1. fetch_page e t q auth p s = Some (Inr (r, []), s1)
                        \<and> code r = 200 \<and> body r = JList (pg p) \<and> good s1
                        \<and> requested t (trace s1) = requested t (trace s) @ [rq p]"
    and old: "\<And>acc x s. good s \<Longrightarrow> W x \<Longrightarrow> stamp x < c
                  \<Longrightarrow> consume acc x s = Some (Inr (Break acc), s)"
    and new: "\<And>acc x s. good s \<Longrightarrow> W x \<Longrightarrow> \<not> stamp x < c
                  \<Longrightarrow> \<exists>s1. consume acc x s = Some (Inr (Next (put x acc)), s1) \<and> good s1
                         \<and> requested t (trace s1) = requested t (trace s)"
    and wf: "\<And>k x. p < k \<Longrightarrow> k \<le> N \<Longrightarrow> x \<in> set (pg k) \<Longrightarrow> W x"
    and full: "\<And>k. p < k \<Longrightarrow> k < N
                  \<Longrightarrow> length (pg k) = 100 \<and> (\<forall>x \<in> set (pg k). \<not> stamp x < c)"
    and last: "length (pg N) < 100 \<or> (\<exists>x \<in> set (pg N). stamp x < c)"
    and "p < N" and "good s"
  shows "\<exists>s'. retrieve_data_gen_loop e consume t q False auth p acc s
               = Some (Inr (fold put (takeWhile (\<lambda>x. \<not> stamp x < c)
                                        (concat (map pg [Suc p..<Suc N]))) acc), s')
           \<and> good s' \<and> requested t (trace s') = requested t (trace s) @ map rq [Suc p..<Suc N]"
  using assms(4-)
proof (induction "N - p" arbitrary: p acc s)
  case 0
  then show ?case by simp
next
  case (Suc d)
  from fetch[OF Suc.prems(5), of "Suc p"] Suc.prems(4) obtain r s1 where
    f: "fetch_page e t q auth (Suc p) s = Some (Inr (r, []), s1)"
    and r: "code r = 200" "body r = JList (pg (Suc p))" and g1: "good s1"
    and t1: "requested t (trace s1) = requested t (trace s) @ [rq (Suc p)]" by auto
  have upt: "[Suc p..<Suc N] = Suc p # [Suc (Suc p)..<Suc N]"
    using Suc.prems(4) by (simp add: upt_conv_Cons)
  have old_here: "consume acc x s = Some (Inr (Break acc), s)"
    if "good s" "x \<in> set (pg (Suc p))" "stamp x < c" for acc x s
    using old[OF that(1) _ that(3)] Suc.prems(1)[OF _ _ that(2)] Suc.prems(4) by simp
  have new_here: "\<exists>s1. consume acc x s = Some (Inr (Next (put x acc)), s1) \<and> good s1
                         \<and> requested t (trace s1) = requested t (trace s)"
    if "good s" "x \<in> set (pg (Suc p))" "\<not> stamp x < c" for acc x s
    using new[OF that(1) _ that(3)] Suc.prems(1)[OF _ _ that(2)] Suc.prems(4) by simp
  from feed_until_old[of good "pg (Suc p)" c consume put t s1 acc, OF old_here new_here g1]
  obtain s2 where
    fd: "feed consume acc (pg (Suc p)) s1
         = Some (Inr ((if \<exists>x \<in> set (pg (Suc p)). stamp x < c then Break else Next)
                       (fold put (takeWhile (\<lambda>x. \<not> stamp x < c) (pg (Suc p))) acc)), s2)"
    and g2: "good s2" and t2: "requested t (trace s2) = requested t (trace s1)"
    by blast
  show ?case
  proof (cases "Suc p = N")
    case True
    have one: "[Suc p..<Suc N] = [N]" using True by simp
    from Suc.prems(3) True
    have stop: "(\<exists>x \<in> set (pg (Suc p)). stamp x < c) \<or> length (pg (Suc p)) < 100" by auto
    have "retrieve_data_gen_loop e consume t q False auth p acc s
          = Some (Inr (fold put (takeWhile (\<lambda>x. \<not> stamp x < c) (pg (Suc p))) acc), s2)"
      using stop
      by (auto simp: retrieve_data_gen_loop_step[OF f] page_body_def r fd)
    then show ?thesis using t1 t2 True g2 by (simp add: one)
  next
    case False
    with Suc.prems(4) have lt: "Suc p < N" by simp
    from Suc.prems(2)[of "Suc p"] lt
    have fl: "length (pg (Suc p)) = 100" and fr: "\<forall>x \<in> set (pg (Suc p)). \<not> stamp x < c"
      by auto
    have tw: "takeWhile (\<lambda>x. \<not> stamp x < c) (pg (Suc p)) = pg (Suc p)"
      using fr by simp
    have step: "retrieve_data_gen_loop e consume t q False auth p acc s
          = retrieve_data_gen_loop e consume t q False auth (Suc p)
              (fold put (pg (Suc p)) acc) s2"
      using fr by (simp add: retrieve_data_gen_loop_step[OF f] page_body_def r fd tw fl)
    have d: "d = N - Suc p" using Suc.hyps(2) by simp
    have wf_rest: "W x" if "Suc p < k" "k \<le> N" "x \<in> set (pg k)" for k x
      using Suc.prems(1)[of k x] that by simp
    have full_rest: "length (pg k) = 100 \<and> (\<forall>x \<in> set (pg k). \<not> stamp x < c)"
      if "Suc p < k" "k < N" for k
      using Suc.prems(2)[of k] that by simp
    have "\<exists>s'. retrieve_data_gen_loop e consume t q False auth (Suc p)
                 (fold put (pg (Suc p)) acc) s2
            = Some (Inr (fold put (takeWhile (\<lambda>x. \<not> stamp x < c)
                                     (concat (map pg [Suc (Suc p)..<Suc N])))
                           (fold put (pg (Suc p)) acc)), s')
          \<and> good s' \<and> requested t (trace s') = requested t (trace s2) @ map rq [Suc (Suc p)..<Suc N]"
      by (rule Suc.hyps(1)[OF d wf_rest full_rest Suc.prems(3) lt g2])
    then obtain s' where
      rec: "retrieve_data_gen_loop e consume t q False auth (Suc p) (fold put (pg (Suc p)) acc) s2
            = Some (Inr (fold put (takeWhile (\<lambda>x. \<not> stamp x < c)
                                     (concat (map pg [Suc (Suc p)..<Suc N])))
                           (fold put (pg (Suc p)) acc)), s')"
      and g': "good s'" and t': "requested t (trace s') = requested t (trace s2) @ map rq [Suc (Suc p)..<Suc N]"
      by blast
    have "takeWhile (\<lambda>x. \<not> stamp x < c) (concat (map pg [Suc p..<Suc N]))
          = pg (Suc p) @ takeWhile (\<lambda>x. \<not> stamp x < c) (concat (map pg [Suc (Suc p)..<Suc N]))"
      using fr by (simp add: upt del: upt_Suc)
    with step rec t' t1 t2 g' show ?thesis by (simp add: upt del: upt_Suc)
  qed
qed



subsection \<open>Credentials\<close>

lemma get_auth_settings:
  assumes "get_auth e encode for_git_cli st = (r, st1)"
  shows "since (args st1) = since (args st)" and "as_app (args st1) = as_app (args st)"
    and "include_pull_details (args st1) = include_pull_details (args st)"
    and "include_pull_comments (args st1) = include_pull_comments (args st)"
    and "include_pull_commits (args st1) = include_pull_commits (args st)"
    and "include_everything (args st1) = include_everything (args st)"
  using assms
  by (auto simp: get_auth_def Let_def log_error_def log_warning_def
      split: if_splits option.splits prod.splits sum.splits)

lemma get_auth_args_only:
  assumes "get_auth e encode for_git_cli s = (Inr a, s1)" and "args s' = args s"
  shows "get_auth e encode for_git_cli s' = (Inr a, s'\<lparr>args := args s1\<rparr>)"
proof -
  let ?A = "args s"
  note defs = get_auth_def Let_def log_error_def assms(2)
  show ?thesis
  proof (cases "given (osx_keychain_item_name ?A)")
    case name: True
    show ?thesis
    proof (cases "given (osx_keychain_item_account ?A) \<and> platform_system e = ''Darwin''")
      case False
      with assms(1) name show ?thesis by (auto simp: defs split: if_splits)
    next
      case True
      show ?thesis
      proof (cases "keychain e (val (osx_keychain_item_name ?A)) (val (osx_keychain_item_account ?A))")
        case None
        with assms(1) name True show ?thesis by (auto simp: defs split: if_splits)
      next
        case (Some out)
        with assms(1) name True show ?thesis by (auto simp: defs split: if_splits)
      qed
    qed
  next
    case name: False
    show ?thesis
    proof (cases "given (osx_keychain_item_account ?A)")
      case True
      with assms(1) name show ?thesis by (auto simp: defs split: if_splits)
    next
      case account: False
      show ?thesis
      proof (cases "given (token ?A)")
        case token: True
        show ?thesis
        proof (cases "startswith (val (token ?A)) ''file://''")
          case from_file: True
          show ?thesis
          proof (cases "token_file e (drop (length ''file://'') (val (token ?A)))")
            case None
            with assms(1) name account token from_file show ?thesis by (auto simp: defs split: if_splits)
          next
            case (Some line)
            with assms(1) name account token from_file show ?thesis
              by (auto simp: defs split: if_splits)
          qed
        next
          case False
          with assms(1) name account token show ?thesis
            by (auto simp: defs split: if_splits)
        qed
      next
        case token: False
        show ?thesis
        proof (cases "given (username ?A)")
          case True
          with assms(1) name account token show ?thesis
            by (auto simp: defs split: if_splits)
        next
          case False
          with assms(1) name account token show ?thesis
            by (auto simp: defs split: if_splits)
        qed
      qed
    qed
  qed
qed

subsection \<open>One listing, from the credentials to the last page\<close>

lemma built_request_eq:
  "fst (construct_request 100 page q t auth app s) = built_request page q t auth app"
  by (simp add: built_request_def construct_request_fst)

lemma built_request_url [simp]: "req_url (built_request page q t auth app) = t"
  by (simp add: built_request_def construct_request_fst)

lemma listing_pass:
  fixes consume :: "(json \<times> json) list consumer"
  assumes stable: "\<And>s. args s = A0 \<or> args s = A
             \<Longrightarrow> get_auth e (\<not> as_app A) False s = (Inr auth, s\<lparr>args := A\<rparr>)"
    and app: "as_app A0 = as_app A"
    and server: "\<And>n p. 0 < p \<Longrightarrow> p \<le> N \<Longrightarrow>
          srv e n (built_request (int p) q t auth (as_app A)) = Returns (ok (JList (pg p)))"
    and old: "\<And>acc x s. args s = A \<and> written (trace s) = W0 \<Longrightarrow> W x \<Longrightarrow> stamp x < c
          \<Longrightarrow> consume acc x s = Some (Inr (Break acc), s)"
    and new: "\<And>acc x s. args s = A \<and> written (trace s) = W0 \<Longrightarrow> W x \<Longrightarrow> \<not> stamp x < c
          \<Longrightarrow> \<exists>s1. consume acc x s = Some (Inr (Next (put x acc)), s1)
                 \<and> (args s1 = A \<and> written (trace s1) = W0)
                 \<and> requested t (trace s1) = requested t (trace s)"
    and wf: "\<And>x. x \<in> set (stream_of pg N) \<Longrightarrow> W x"
    and sorted: "sorted_wrt (\<lambda>x y. stamp y \<le> stamp x) (stream_of pg N)"
    and full: "\<And>k. 0 < k \<Longrightarrow> k < N
          \<Longrightarrow> length (pg k) = 100 \<and> (\<forall>x \<in> set (pg k). \<not> stamp x < c)"
    and last: "0 < N \<and> (length (pg N) < 100 \<or> (\<exists>x \<in> set (pg N). stamp x < c))"
    and start: "args s = A0 \<or> args s = A" "written (trace s) = W0"
  shows "\<exists>s'. retrieve_data_gen e consume t (Some q) False acc s
               = Some (Inr (fold put (spec_kept c (stream_of pg N)) acc), s')
           \<and> args s' = A \<and> written (trace s') = W0
           \<and> requested t (trace s')
               = requested t (trace s)
                 @ map (\<lambda>p. built_request (int p) q t auth (as_app A)) [1..<Suc N]"
proof -
  let ?rq = "\<lambda>p. built_request (int p) q t auth (as_app A)"
  let ?s0 = "s\<lparr>args := A\<rparr>"
  define good where "good s \<longleftrightarrow> args s = A \<and> written (trace s) = W0" for s :: state
  have good0: "good ?s0" using start(2) by (simp add: good_def)
  have appS: "as_app (args s) = as_app A" using start(1) app by auto
  have fetch: "\<exists>r s1. fetch_page e t (get_query_args (Some q)) auth p s = Some (Inr (r, []), s1)
                 \<and> code r = 200 \<and> body r = JList (pg p) \<and> good s1
                 \<and> requested t (trace s1) = requested t (trace s) @ [?rq p]"
    if "good s" "0 < p" "p \<le> N" for p s
  proof -
    have q: "get_query_args (Some q) = q" by (simp add: get_query_args_def)
    have rq: "fst (construct_request 100 (int p) (get_query_args (Some q)) t auth
                     (as_app (args s)) s) = ?rq p"
      using that(1) by (simp add: built_request_eq good_def q)
    from fetch_page_at_once[OF rq server[OF that(2,3)], of t]
    show ?thesis using that(1) by (auto simp: ok_def good_def)
  qed
  have old': "consume acc x s = Some (Inr (Break acc), s)"
    if "good s" "W x" "stamp x < c" for acc x s
    using old[OF _ that(2,3), of s acc] that(1) by (simp add: good_def)
  have new': "\<exists>s1. consume acc x s = Some (Inr (Next (put x acc)), s1)
                 \<and> good s1 \<and> requested t (trace s1) = requested t (trace s)"
    if "good s" "W x" "\<not> stamp x < c" for acc x s
    using new[OF _ that(2,3), of s acc] that(1) by (simp add: good_def)
  have wf': "W x" if "0 < k" "k \<le> N" "x \<in> set (pg k)" for k x
  proof -
    have "x \<in> set (stream_of pg N)"
      using that by (auto simp: stream_of_def simp del: upt_Suc intro!: bexI[where x = k])
    then show ?thesis by (rule wf)
  qed
  from last have N: "0 < N"
    and last': "length (pg N) < 100 \<or> (\<exists>x \<in> set (pg N). stamp x < c)" by auto
  have "\<exists>s'. retrieve_data_gen_loop e consume t (get_query_args (Some q)) False auth 0 acc ?s0
               = Some (Inr (fold put (takeWhile (\<lambda>x. \<not> stamp x < c)
                                        (concat (map pg [Suc 0..<Suc N]))) acc), s')
           \<and> good s'
           \<and> requested t (trace s') = requested t (trace ?s0) @ map ?rq [Suc 0..<Suc N]"
    apply (rule pass_until_old[where good = good and W = W])
           apply (rule fetch; assumption)
          apply (rule old'; assumption)
         apply (rule new'; assumption)
        apply (rule wf'; assumption)
       apply (rule full; assumption)
      apply (rule last')
     apply (rule N)
    apply (rule good0)
    done
  then obtain s' where
    loop: "retrieve_data_gen_loop e consume t (get_query_args (Some q)) False auth 0 acc ?s0
           = Some (Inr (fold put (takeWhile (\<lambda>x. \<not> stamp x < c)
                                    (concat (map pg [Suc 0..<Suc N]))) acc), s')"
    and g: "good s'"
    and tr: "requested t (trace s') = requested t (trace ?s0) @ map ?rq [Suc 0..<Suc N]"
    by blast
  have kept: "takeWhile (\<lambda>x. \<not> stamp x < c) (concat (map pg [Suc 0..<Suc N]))
              = spec_kept c (stream_of pg N)"
    using takeWhile_sorted_filter[OF sorted, of c] by (simp add: spec_kept_def stream_of_def)
  have "retrieve_data_gen e consume t (Some q) False acc s
        = Some (Inr (fold put (spec_kept c (stream_of pg N)) acc), s')"
    unfolding retrieve_data_gen_def appS stable[OF start(1)] using loop kept by simp
  with g tr show ?thesis by (auto simp: good_def)
qed

subsection \<open>The details of one pull request\<close>

lemma retrieve_object:
  assumes "get_auth e (\<not> as_app (args s)) False s = (Inr auth, s)"
    and "\<And>n. srv e n (built_request 1 [] u auth (as_app (args s))) = Returns (ok (JDict d))"
    and "u \<noteq> t"
  shows "\<exists>s1. retrieve_data e u None True s = Some (Inr [JDict d], s1)
           \<and> args s1 = args s \<and> written (trace s1) = written (trace s)
           \<and> requested t (trace s1) = requested t (trace s)"
proof -
  have rq: "fst (construct_request 100 (int (Suc 0)) [] u auth (as_app (args s)) s)
            = built_request 1 [] u auth (as_app (args s))"
    by (simp add: built_request_eq)
  from fetch_page_at_once[OF rq assms(2), of t] obtain s1 where
    f: "fetch_page e u [] auth (Suc 0) s = Some (Inr (ok (JDict d), []), s1)"
    and a: "args s1 = args s" and w: "written (trace s1) = written (trace s)"
    and r: "requested t (trace s1) = requested t (trace s)"
    using assms(3) by (auto simp: ok_def)
  have "retrieve_data e u None True s = Some (Inr [JDict d], s1)"
    by (simp add: retrieve_data_def retrieve_data_gen_def assms(1) get_query_args_def
        retrieve_data_gen_loop_step[OF f] page_body_def ok_def collect_def)
  with a w r show ?thesis by simp
qed

lemma pull_body_details_old:
  assumes "since (args s) = Some c" and "c \<noteq> []" and "is_pull x" and "stamp x < c"
  shows "pull_body_details e t acc x s = Some (Inr (Break acc), s)"
  using assms
  by (auto simp: pull_body_details_def pull_verdict_def is_pull_def stamp_def lt_str_def given_def
      val_def split: sum.splits json.splits)

lemma pull_body_details_new:
  assumes "since (args s) = Some c" and "c \<noteq> []" and "is_pull x" and "\<not> stamp x < c"
    and "retrieve_data e (t @ ''/'' @ fmt e (key_of x)) None True s = Some (Inr [d], s1)"
  shows "pull_body_details e t acc x s = Some (Inr (Next (setitem key_eq (key_of x) d acc)), s1)"
proof -
  from assms(3) obtain u n where
    u: "getitem x ''updated_at'' = Inr (JStr u)" and n: "getitem x ''number'' = Inr n"
    and h: "hashable n"
    by (auto simp: is_pull_def split: sum.splits json.splits)
  have k: "key_of x = n" by (simp add: key_of_def n)
  have v: "pull_verdict (since (args s)) x = Inr Keep"
    using assms(1,2,4) u
    by (simp add: pull_verdict_def given_def val_def lt_str_def ge_str_def stamp_def)
  show ?thesis
    using assms(5) by (simp add: pull_body_details_def v n k[symmetric] store_def h[folded k])
qed

subsection \<open>The pull requests that are gathered\<close>

lemma pulls_query_states [simp]:
  "setitem (=) ''state'' (JStr pull_state)
     [(''filter'', JStr ''all''), (''state'', JStr ''all''),
      (''sort'', JStr ''updated''), (''direction'', JStr ''desc'')] = pulls_query pull_state"
  "setitem (=) ''state'' (JStr pull_state) (pulls_query other) = pulls_query pull_state"
  "[(''filter'', JStr ''all''), (''state'', JStr ''all''),
    (''sort'', JStr ''updated''), (''direction'', JStr ''desc'')] = pulls_query ''all''"
  by (simp_all add: pulls_query_def)

lemma gather_pulls_kept:
  fixes pg :: "string \<Rightarrow> nat \<Rightarrow> json list" and N :: "string \<Rightarrow> nat"
  assumes stable: "\<And>s. args s = args sm \<or> args s = A
             \<Longrightarrow> get_auth e (\<not> as_app A) False s = (Inr auth, s\<lparr>args := A\<rparr>)"
    and app: "as_app (args sm) = as_app A"
    and since: "since A = Some c" "c \<noteq> []"
    and listing: "\<And>pull_state n p. pull_state \<in> set (pull_states sm) \<Longrightarrow> 0 < p
          \<Longrightarrow> p \<le> N pull_state
          \<Longrightarrow> srv e n (built_request (int p) (pulls_query pull_state) t auth (as_app A))
                = Returns (ok (JList (pg pull_state p)))"
    and pulls: "\<And>pull_state x. pull_state \<in> set (pull_states sm)
          \<Longrightarrow> x \<in> set (stream_of (pg pull_state) (N pull_state)) \<Longrightarrow> is_pull x"
    and sorted: "\<And>pull_state. pull_state \<in> set (pull_states sm)
          \<Longrightarrow> sorted_wrt (\<lambda>x y. stamp y \<le> stamp x) (stream_of (pg pull_state) (N pull_state))"
    and full: "\<And>pull_state k. pull_state \<in> set (pull_states sm) \<Longrightarrow> 0 < k
          \<Longrightarrow> k < N pull_state
          \<Longrightarrow> length (pg pull_state k) = 100 \<and> (\<forall>x \<in> set (pg pull_state k). \<not> stamp x < c)"
    and last: "\<And>pull_state. pull_state \<in> set (pull_states sm)
          \<Longrightarrow> 0 < N pull_state
              \<and> (length (pg pull_state (N pull_state)) < 100
                 \<or> (\<exists>x \<in> set (pg pull_state (N pull_state)). stamp x < c))"
    and details: "\<And>x n. include_pull_details (args sm)
          \<Longrightarrow> x \<in> set (spec_kept c (stream_of (pg ''all'') (N ''all'')))
          \<Longrightarrow> srv e n (built_request 1 [] (t @ ''/'' @ fmt e (key_of x)) auth (as_app A))
                = Returns (ok (detail x))
              \<and> (\<exists>d. detail x = JDict d)"
  shows "\<exists>sg. gather_pulls e t sm
               = Some (Inr (kept_pulls c (if include_pull_details (args sm) then detail
                                         else (\<lambda>x. x)) pg N (pull_states sm)), sg)
           \<and> args sg = A \<and> written (trace sg) = written (trace sm)
           \<and> requested t (trace sg)
               = requested t (trace sm)
                 @ concat (map (\<lambda>pull_state.
                                  map (\<lambda>p. built_request (int p) (pulls_query pull_state) t auth
                                             (as_app A)) [1..<Suc (N pull_state)])
                             (pull_states sm))"
proof (cases "include_pull_details (args sm)")
  case False
  then have st: "pull_states sm = [''open'', ''closed'']" by (simp add: pull_states_def)
  let ?put = "\<lambda>x d. setitem key_eq (key_of x) x d"
  let ?wr = "written (trace sm)"
  have old: "pull_body acc x s = Some (Inr (Break acc), s)"
    if "args s = A \<and> written (trace s) = ?wr" "is_pull x" "stamp x < c" for acc x s
    using pull_body_old[OF _ since(2) that(2,3), of s acc] that(1) since(1) by simp
  have new: "\<exists>s1. pull_body acc x s = Some (Inr (Next (?put x acc)), s1)
                 \<and> (args s1 = A \<and> written (trace s1) = ?wr)
                 \<and> requested t (trace s1) = requested t (trace s)"
    if "args s = A \<and> written (trace s) = ?wr" "is_pull x" "\<not> stamp x < c" for acc x s
    using pull_body_new[OF _ since(2) that(2,3), of s acc] that(1) since(1) by simp
  have o: "''open'' \<in> set (pull_states sm)" and c: "''closed'' \<in> set (pull_states sm)"
    by (simp_all add: st)
  have "\<exists>s'. retrieve_data_gen e pull_body t (Some (pulls_query ''open'')) False [] sm
               = Some (Inr (fold ?put (spec_kept c (stream_of (pg ''open'') (N ''open''))) []), s')
           \<and> args s' = A \<and> written (trace s') = ?wr
           \<and> requested t (trace s')
               = requested t (trace sm)
                 @ map (\<lambda>p. built_request (int p) (pulls_query ''open'') t auth (as_app A))
                     [1..<Suc (N ''open'')]"
    apply (rule listing_pass[where W = is_pull and ?A0.0 = "args sm"])
              apply (rule stable; assumption)
             apply (rule app)
            apply (rule listing[OF o]; assumption)
           apply (rule old; assumption)
          apply (rule new; assumption)
         apply (rule pulls[OF o]; assumption)
        apply (rule sorted[OF o])
       apply (rule full[OF o]; assumption)
      apply (rule last[OF o])
     apply simp
    apply simp
    done
  then obtain s' where
    p1: "retrieve_data_gen e pull_body t (Some (pulls_query ''open'')) False [] sm
         = Some (Inr (fold ?put (spec_kept c (stream_of (pg ''open'') (N ''open''))) []), s')"
    and a1: "args s' = A" and w1: "written (trace s') = ?wr"
    and r1: "requested t (trace s')
             = requested t (trace sm)
               @ map (\<lambda>p. built_request (int p) (pulls_query ''open'') t auth (as_app A))
                   [1..<Suc (N ''open'')]"
    by blast
  let ?D1 = "fold ?put (spec_kept c (stream_of (pg ''open'') (N ''open''))) []"
  have "\<exists>s''. retrieve_data_gen e pull_body t (Some (pulls_query ''closed'')) False ?D1 s'
               = Some (Inr (fold ?put (spec_kept c (stream_of (pg ''closed'') (N ''closed''))) ?D1),
                       s'')
           \<and> args s'' = A \<and> written (trace s'') = ?wr
           \<and> requested t (trace s'')
               = requested t (trace s')
                 @ map (\<lambda>p. built_request (int p) (pulls_query ''closed'') t auth (as_app A))
                     [1..<Suc (N ''closed'')]"
    apply (rule listing_pass[where W = is_pull and ?A0.0 = "args sm"])
              apply (rule stable; assumption)
             apply (rule app)
            apply (rule listing[OF c]; assumption)
           apply (rule old; assumption)
          apply (rule new; assumption)
         apply (rule pulls[OF c]; assumption)
        apply (rule sorted[OF c])
       apply (rule full[OF c]; assumption)
      apply (rule last[OF c])
     apply (simp add: a1)
    apply (rule w1)
    done
  then obtain s'' where
    p2: "retrieve_data_gen e pull_body t (Some (pulls_query ''closed'')) False ?D1 s'
         = Some (Inr (fold ?put (spec_kept c (stream_of (pg ''closed'') (N ''closed''))) ?D1), s'')"
    and a2: "args s'' = A" and w2: "written (trace s'') = ?wr"
    and r2: "requested t (trace s'')
             = requested t (trace s')
               @ map (\<lambda>p. built_request (int p) (pulls_query ''closed'') t auth (as_app A))
                   [1..<Suc (N ''closed'')]"
    by blast
  have "gather_pulls e t sm
        = Some (Inr (kept_pulls c (\<lambda>x. x) pg N [''open'', ''closed'']), s'')"
    using False p1 p2
    by (simp add: gather_pulls_def Let_def kept_pulls_def spec_merged_def)
  with False a2 w2 r1 r2 show ?thesis by (simp add: st)
next
  case True
  then have st: "pull_states sm = [''all'']" by (simp add: pull_states_def)
  let ?put = "\<lambda>x d. setitem key_eq (key_of x) (detail x) d"
  let ?wr = "written (trace sm)"
  let ?ok = "\<lambda>x. is_pull x
              \<and> (\<not> stamp x < c \<longrightarrow>
                   (\<forall>n. srv e n (built_request 1 [] (t @ ''/'' @ fmt e (key_of x)) auth (as_app A))
                        = Returns (ok (detail x)))
                   \<and> (\<exists>d. detail x = JDict d))"
  have a: "''all'' \<in> set (pull_states sm)" by (simp add: st)
  have old: "pull_body_details e t acc x s = Some (Inr (Break acc), s)"
    if "args s = A \<and> written (trace s) = ?wr" "?ok x" "stamp x < c" for acc x s
    using pull_body_details_old[where s = s and x = x and acc = acc and e = e and t = t,
        OF _ since(2) _ that(3)] that(1,2) since(1) by simp
  have new: "\<exists>s1. pull_body_details e t acc x s = Some (Inr (Next (?put x acc)), s1)
                 \<and> (args s1 = A \<and> written (trace s1) = ?wr)
                 \<and> requested t (trace s1) = requested t (trace s)"
    if "args s = A \<and> written (trace s) = ?wr" "?ok x" "\<not> stamp x < c" for acc x s
  proof -
    from that(2,3) obtain d where
      srv: "\<And>n. srv e n (built_request 1 [] (t @ ''/'' @ fmt e (key_of x)) auth (as_app A))
                 = Returns (ok (JDict d))"
      and d: "detail x = JDict d" and p: "is_pull x" by auto
    from that(1) have as: "args s = A" by simp
    have ga: "get_auth e (\<not> as_app (args s)) False s = (Inr auth, s)"
      using stable[of s] that(1) by simp
    have "\<exists>s1. retrieve_data e (t @ ''/'' @ fmt e (key_of x)) None True s = Some (Inr [JDict d], s1)
           \<and> args s1 = args s \<and> written (trace s1) = written (trace s)
           \<and> requested t (trace s1) = requested t (trace s)"
      apply (rule retrieve_object[OF ga])
       apply (unfold as)
       apply (rule srv)
      apply simp
      done
    then obtain s1 where
      r: "retrieve_data e (t @ ''/'' @ fmt e (key_of x)) None True s = Some (Inr [JDict d], s1)"
      and rest: "args s1 = args s" "written (trace s1) = written (trace s)"
        "requested t (trace s1) = requested t (trace s)" by blast
    from pull_body_details_new[OF _ since(2) p that(3) r, of acc] that(1) since(1) rest d
    show ?thesis by simp
  qed
  have wf: "?ok x" if "x \<in> set (stream_of (pg ''all'') (N ''all''))" for x
  proof -
    have "x \<in> set (spec_kept c (stream_of (pg ''all'') (N ''all'')))" if "\<not> stamp x < c"
      using that \<open>x \<in> set (stream_of (pg ''all'') (N ''all''))\<close> by (simp add: spec_kept_def)
    with details[OF True] pulls[OF a that] show ?thesis by blast
  qed
  have "\<exists>s'. retrieve_data_gen e (pull_body_details e t) t (Some (pulls_query ''all'')) False [] sm
               = Some (Inr (fold ?put (spec_kept c (stream_of (pg ''all'') (N ''all''))) []), s')
           \<and> args s' = A \<and> written (trace s') = ?wr
           \<and> requested t (trace s')
               = requested t (trace sm)
                 @ map (\<lambda>p. built_request (int p) (pulls_query ''all'') t auth (as_app A))
                     [1..<Suc (N ''all'')]"
    apply (rule listing_pass[where W = ?ok and ?A0.0 = "args sm"])
              apply (rule stable; assumption)
             apply (rule app)
            apply (rule listing[OF a]; assumption)
           apply (rule old; assumption)
          apply (rule new; assumption)
         apply (rule wf; assumption)
        apply (rule sorted[OF a])
       apply (rule full[OF a]; assumption)
      apply (rule last[OF a])
     apply simp
    apply simp
    done
  then obtain s' where
    p1: "retrieve_data_gen e (pull_body_details e t) t (Some (pulls_query ''all'')) False [] sm
         = Some (Inr (fold ?put (spec_kept c (stream_of (pg ''all'') (N ''all''))) []), s')"
    and rest: "args s' = A" "written (trace s') = ?wr"
      "requested t (trace s')
       = requested t (trace sm)
         @ map (\<lambda>p. built_request (int p) (pulls_query ''all'') t auth (as_app A))
             [1..<Suc (N ''all'')]"
    by blast
  have "gather_pulls e t sm = Some (Inr (kept_pulls c detail pg N [''all'']), s')"
    using True p1 by (simp add: gather_pulls_def Let_def kept_pulls_def spec_merged_def)
  with True rest show ?thesis by (simp add: st)
qed

subsection \<open>The directories and the saving loop\<close>

lemma mkdir_p_two:
  assumes "files s a = None" and "files s b = None"
  shows "\<exists>sm. mkdir_p [a, b] s = (Inr (), sm) \<and> args sm = args s
           \<and> written (trace sm) = written (trace s)
           \<and> requested t (trace sm) = requested t (trace s)"
  using assms by simp

lemma save_pulls_plain:
  assumes "\<not> (include_pull_comments (args s) \<or> include_pull_commits (args s)
              \<or> include_everything (args s))"
  shows "\<exists>s'. save_pulls e t cwd D s = Some (Inr (), s')
           \<and> written (trace s')
               = written (trace s) @ map (\<lambda>(n, p). (cwd @ ''/'' @ fmt e n @ ''.json'', Json p)) D
           \<and> requested u (trace s') = requested u (trace s)"
  using assms
proof (induction D arbitrary: s)
  case Nil
  then show ?case by simp
next
  case (Cons a D)
  obtain n p where a: "a = (n, p)" by (cases a)
  let ?s1 = "write_json e (cwd @ ''/'' @ fmt e n @ ''.json'') p s"
  have "\<not> (include_pull_comments (args ?s1) \<or> include_pull_commits (args ?s1)
            \<or> include_everything (args ?s1))"
    using Cons.prems by (simp add: write_json_def)
  from Cons.IH[OF this] obtain s' where
    "save_pulls e t cwd D ?s1 = Some (Inr (), s')"
    "written (trace s')
     = written (trace ?s1) @ map (\<lambda>(n, p). (cwd @ ''/'' @ fmt e n @ ''.json'', Json p)) D"
    "requested u (trace s') = requested u (trace ?s1)" by blast
  with Cons.prems show ?case
    by (simp add: a attach_def write_json_def)
qed

subsection \<open>The cutoff from one run to the next\<close>

lemma last_update_round_trip:
  assumes "incremental (args s0)"
    and "sw = snd (write_last_update out (Some (JStr c)) s0)"
    and "files s1 = files sw" and "incremental (args s1)"
    and "read_since e out repos s1 = (Inr lu, s2)"
  shows "since (args s2) = Some (strip c)" and "trace s2 = trace s1"
  using assms
  by (auto simp: write_last_update_def write_text_def read_since_def Let_def path_exists_def
      read_file_def split: sum.splits if_splits)

text \<open>
  C5. The cutoff that a run has written into \<^verbatim>\<open>last_update\<close> is the \<^verbatim>\<open>since\<close> of the next
  incremental run on the same files (a time stamp: not empty, no white space around it).
  With it, \<^verbatim>\<open>backup_pulls\<close> is called for a repository whose directories can be made, with
  credentials that \<^verbatim>\<open>get_auth\<close> gives again and again, and a server that answers every page
  of the listings it is asked for: the listings of the states \<^verbatim>\<open>open\<close> and \<^verbatim>\<open>closed\<close>, or the
  one listing of the state \<^verbatim>\<open>all\<close> and the details of a pull request when
  \<^verbatim>\<open>--pull-details\<close> is set. Each listing is sorted descending by \<^verbatim>\<open>updated_at\<close>, its pages
  before the \<open>N\<close>-th are full and not older than the cutoff, and its \<open>N\<close>-th page is short or
  holds an item older than the cutoff. Then the run of \<^verbatim>\<open>backup_pulls\<close> is its saving loop
  over exactly the pull requests of the listings that are not strictly older than the
  cutoff (the items at the cutoff are in, the older ones are out; with \<^verbatim>\<open>--pull-details\<close> it
  is their details that are kept), entered when nothing has been written yet and the pages
  \<open>1\<close> to \<open>N\<close> of each listing, and no other, have been requested: pagination stops with the
  page of the first item older than the cutoff. When neither comments nor commits are
  wanted, the run returns and has written one file for each of these pull requests, and
  nothing else.
\<close>

theorem cutoff_round_trip_bounds_pulls:
  fixes pg :: "string \<Rightarrow> nat \<Rightarrow> json list" and N :: "string \<Rightarrow> nat"
  assumes run_n: "incremental (args s0)"
      "sw = snd (write_last_update out (Some (JStr c)) s0)"
    and run_n1: "files s1 = files sw" "incremental (args s1)"
      "read_since e out repos s1 = (Inr lu, s2)"
    and cutoff: "strip c = c" "c \<noteq> []"
    and call: "\<not> (skip_existing (args s2) \<and> isdir (repo_cwd @ ''/pulls/.git'') s2)"
      "getitem repository ''full_name'' = Inr full_name"
      "files s2 repo_cwd = None" "files s2 (path_join repo_cwd ''pulls'') = None"
      "t = repos_template @ ''/'' @ fmt e full_name @ ''/pulls''"
    and auth: "get_auth e (\<not> as_app (args s2)) False s2 = (Inr auth, s3)"
      "get_auth e (\<not> as_app (args s2)) False s3 = (Inr auth, s3)"
    and listing: "\<And>pull_state n p. pull_state \<in> set (pull_states s2) \<Longrightarrow> 0 < p
          \<Longrightarrow> p \<le> N pull_state
          \<Longrightarrow> srv e n (built_request (int p) (pulls_query pull_state) t auth (as_app (args s2)))
                = Returns (ok (JList (pg pull_state p)))"
    and pulls: "\<And>pull_state x. pull_state \<in> set (pull_states s2)
          \<Longrightarrow> x \<in> set (stream_of (pg pull_state) (N pull_state)) \<Longrightarrow> is_pull x"
    and sorted: "\<And>pull_state. pull_state \<in> set (pull_states s2)
          \<Longrightarrow> sorted_wrt (\<lambda>x y. stamp y \<le> stamp x) (stream_of (pg pull_state) (N pull_state))"
    and full: "\<And>pull_state k. pull_state \<in> set (pull_states s2) \<Longrightarrow> 0 < k
          \<Longrightarrow> k < N pull_state
          \<Longrightarrow> length (pg pull_state k) = 100 \<and> (\<forall>x \<in> set (pg pull_state k). \<not> stamp x < c)"
    and last: "\<And>pull_state. pull_state \<in> set (pull_states s2)
          \<Longrightarrow> 0 < N pull_state
              \<and> (length (pg pull_state (N pull_state)) < 100
                 \<or> (\<exists>x \<in> set (pg pull_state (N pull_state)). stamp x < c))"
    and details: "\<And>x n. include_pull_details (args s2)
          \<Longrightarrow> x \<in> set (spec_kept c (stream_of (pg ''all'') (N ''all'')))
          \<Longrightarrow> srv e n (built_request 1 [] (t @ ''/'' @ fmt e (key_of x)) auth (as_app (args s2)))
                = Returns (ok (detail x))
              \<and> (\<exists>d. detail x = JDict d)"
    and kept: "kept = kept_pulls c (if include_pull_details (args s2) then detail else (\<lambda>x. x))
                        pg N (pull_states s2)"
    and pages: "pages = concat (map (\<lambda>pull_state.
                                  map (\<lambda>p. built_request (int p) (pulls_query pull_state) t auth
                                             (as_app (args s2))) [1..<Suc (N pull_state)])
                             (pull_states s2))"
  shows "since (args s2) = Some c
         \<and> (\<exists>sg. backup_pulls e repo_cwd repository repos_template s2
                    = save_pulls e t (path_join repo_cwd ''pulls'') kept sg
                \<and> written (trace sg) = written (trace s2)
                \<and> requested t (trace sg) = requested t (trace s2) @ pages)
         \<and> (\<not> (include_pull_comments (args s2) \<or> include_pull_commits (args s2)
                 \<or> include_everything (args s2))
             \<longrightarrow> (\<exists>s'. backup_pulls e repo_cwd repository repos_template s2 = Some (Inr (), s')
                    \<and> written (trace s')
                        = written (trace s2)
                          @ map (\<lambda>(number, pull).
                                   (path_join repo_cwd ''pulls'' @ ''/'' @ fmt e number @ ''.json'',
                                    Json pull)) kept
                    \<and> requested t (trace s') = requested t (trace s2) @ pages))"
proof -
  let ?A = "args s3"
  let ?cwd = "path_join repo_cwd ''pulls''"
  let ?s1 = "log_info ''Retrieving {0} pull requests'' s2"
  have since: "since (args s2) = Some c"
    using last_update_round_trip(1)[OF run_n run_n1] cutoff(1) by simp
  note keep = get_auth_settings[OF auth(1)]
  have sinceA: "since ?A = Some c" using keep(1) since by simp
  have stable: "get_auth e (\<not> as_app ?A) False s = (Inr auth, s\<lparr>args := ?A\<rparr>)"
    if "args s = args s2 \<or> args s = ?A" for s
    using that get_auth_args_only[OF auth(1), of s] get_auth_args_only[OF auth(2), of s] keep(2)
    by auto
  have "\<exists>sm. mkdir_p [repo_cwd, ?cwd] ?s1 = (Inr (), sm) \<and> args sm = args ?s1
           \<and> written (trace sm) = written (trace ?s1)
           \<and> requested t (trace sm) = requested t (trace ?s1)"
    by (rule mkdir_p_two) (simp_all add: log_info_def call(3,4))
  then obtain sm where
    mk: "mkdir_p [repo_cwd, ?cwd] ?s1 = (Inr (), sm)" and am: "args sm = args s2"
    and wm: "written (trace sm) = written (trace s2)"
    and rm: "requested t (trace sm) = requested t (trace s2)"
    by (auto simp: log_info_def)
  have ps: "pull_states sm = pull_states s2" by (simp add: pull_states_def am)
  have "\<exists>sg. gather_pulls e t sm
               = Some (Inr (kept_pulls c (if include_pull_details (args sm) then detail
                                         else (\<lambda>x. x)) pg N (pull_states sm)), sg)
           \<and> args sg = ?A \<and> written (trace sg) = written (trace sm)
           \<and> requested t (trace sg)
               = requested t (trace sm)
                 @ concat (map (\<lambda>pull_state.
                                  map (\<lambda>p. built_request (int p) (pulls_query pull_state) t auth
                                             (as_app ?A)) [1..<Suc (N pull_state)])
                             (pull_states sm))"
    unfolding ps am keep(2)
    apply (rule gather_pulls_kept[where A = ?A and sm = sm, unfolded ps am keep(2)])
            apply (rule stable[unfolded keep(2)]; assumption)
           apply (rule refl)
          apply (rule sinceA)
         apply (rule cutoff(2))
        apply (rule listing; assumption)
       apply (rule pulls; assumption)
      apply (rule sorted; assumption)
     apply (rule full; assumption)
    apply (rule last; assumption)
    apply (rule details; assumption)
    done
  then obtain sg where
    g: "gather_pulls e t sm = Some (Inr kept, sg)" and ag: "args sg = ?A"
    and wg: "written (trace sg) = written (trace s2)"
    and rg: "requested t (trace sg) = requested t (trace s2) @ pages"
    unfolding ps am keep(2) kept pages wm rm by blast
  let ?sv = "log_info ''Saving {0} pull requests to disk'' sg"
  have run: "backup_pulls e repo_cwd repository repos_template s2 = save_pulls e t ?cwd kept ?sv"
  proof -
    have tt: "repos_template @ CHR ''/'' # fmt e full_name @ ''/pulls'' = t"
      using call(5) by simp
    show ?thesis
      using call(1) mk g
      by (auto simp: backup_pulls_def Let_def call(2) tt simp del: mkdir_p.simps)
  qed
  have wv: "written (trace ?sv) = written (trace s2)"
    and rv: "requested t (trace ?sv) = requested t (trace s2) @ pages"
    using wg rg by (simp_all add: log_info_def)
  have plain: "\<exists>s'. backup_pulls e repo_cwd repository repos_template s2 = Some (Inr (), s')
                 \<and> written (trace s')
                     = written (trace s2)
                       @ map (\<lambda>(number, pull). (?cwd @ ''/'' @ fmt e number @ ''.json'', Json pull)) kept
                 \<and> requested t (trace s') = requested t (trace s2) @ pages"
    if "\<not> (include_pull_comments (args s2) \<or> include_pull_commits (args s2)
            \<or> include_everything (args s2))"
  proof -
    have "\<not> (include_pull_comments (args ?sv) \<or> include_pull_commits (args ?sv)
              \<or> include_everything (args ?sv))"
      using that keep(4,5,6) ag by (simp add: log_info_def)
    from save_pulls_plain[OF this, of e t ?cwd kept t] show ?thesis
      unfolding run wv rv by blast
  qed
  from since run wv rv plain show ?thesis by blast
qed

theorem cutoff_round_trip_bounds_pulls_witness:
  "since (args resumed_state) = Some ''2021-01-01T00:00:00Z''
   \<and> returned (backup_pulls pulls_env ''out/repositories/r'' a_repository
                 ''https://api.github.com/repos'' resumed_state) = Some (Inr ())
   \<and> map_option written
        (effects (backup_pulls pulls_env ''out/repositories/r'' a_repository
                    ''https://api.github.com/repos'' resumed_state))
       = Some [(''out/last_update'', Text ''2021-01-01T00:00:00Z''),
               (''out/repositories/r/pulls/7.json'', Json new_pull),
               (''out/repositories/r/pulls/6.json'', Json cutoff_pull)]
   \<and> map_option (requested pulls_url)
        (effects (backup_pulls pulls_env ''out/repositories/r'' a_repository
                    ''https://api.github.com/repos'' resumed_state))
       = Some [built_request 1 (pulls_query ''open'') pulls_url None False,
               built_request 1 (pulls_query ''closed'') pulls_url None False]
   \<and> since (args resumed_details_state) = Some ''2021-01-01T00:00:00Z''
   \<and> returned (backup_pulls pulls_env ''out/repositories/r'' a_repository
                 ''https://api.github.com/repos'' resumed_details_state) = Some (Inr ())
   \<and> map_option written
        (effects (backup_pulls pulls_env ''out/repositories/r'' a_repository
                    ''https://api.github.com/repos'' resumed_details_state))
       = Some [(''out/last_update'', Text ''2021-01-01T00:00:00Z''),
               (''out/repositories/r/pulls/7.json'', Json (details_of new_pull)),
               (''out/repositories/r/pulls/6.json'', Json (details_of cutoff_pull))]
   \<and> map_option (requested pulls_url)
        (effects (backup_pulls pulls_env ''out/repositories/r'' a_repository
                    ''https://api.github.com/repos'' resumed_details_state))
       = Some [built_request 1 (pulls_query ''all'') pulls_url None False]"
proof -
  let ?c = "''2021-01-01T00:00:00Z''"
  let ?pg = "\<lambda>(pull_state :: string) (p :: nat). pulls_page"
  let ?N = "\<lambda>pull_state :: string. Suc 0"
  let ?sw = "snd (write_last_update ''out'' (Some (JStr ?c)) incremental_state)"
  let ?s1 = "?sw\<lparr>args := (args ?sw)\<lparr>include_pull_details := True\<rparr>\<rparr>"
  let ?cwd = "''out/repositories/r''"
  let ?rt = "''https://api.github.com/repos''"
  have h6: "strip ?c = ?c" by code_simp
  have h7: "?c \<noteq> []" by simp
  have p: "path_join ''out'' ''last_update'' = ''out/last_update''"
    and pc: "path_join ?cwd ''pulls'' = ''out/repositories/r/pulls''"
    by (simp_all add: path_join_def startswith_def)
  have sw: "?sw = write_text ''out/last_update'' ?c incremental_state"
    by (simp add: write_last_update_def incremental_state_def p)
  have r: "resumed_state
           = (write_text ''out/last_update'' ?c incremental_state)
               \<lparr>args := args0\<lparr>incremental := True, since := Some ?c\<rparr>\<rparr>"
    unfolding resumed_state_def sw
    by (simp add: read_since_def p write_text_def incremental_state_def h6
        compute_last_update_def path_exists_def read_file_def pulls_env_def env0_def Let_def
        state0_def)
  have rd: "resumed_details_state
            = (write_text ''out/last_update'' ?c incremental_state)
                \<lparr>args := args0\<lparr>incremental := True, since := Some ?c,
                                include_pull_details := True\<rparr>\<rparr>"
    by (simp add: resumed_details_state_def r)
  have h5: "read_since pulls_env ''out'' [] ?sw
            = (Inr (Some (JStr ''1970-01-01T00:00:00Z'')), resumed_state)"
    unfolding r unfolding sw
    by (simp add: read_since_def p write_text_def incremental_state_def h6
        compute_last_update_def path_exists_def read_file_def pulls_env_def env0_def Let_def
        state0_def)
  have h5d: "read_since pulls_env ''out'' [] ?s1
             = (Inr (Some (JStr ''1970-01-01T00:00:00Z'')), resumed_details_state)"
    unfolding rd unfolding sw
    by (simp add: read_since_def p write_text_def incremental_state_def h6
        compute_last_update_def path_exists_def read_file_def pulls_env_def env0_def Let_def
        state0_def args0_def)
  have h1: "incremental (args incremental_state)"
    by (simp add: incremental_state_def)
  have h4: "incremental (args ?sw)" "incremental (args ?s1)" "files ?s1 = files ?sw"
    unfolding sw by (simp_all add: incremental_state_def write_text_def)
  have a: "args resumed_state = args0\<lparr>incremental := True, since := Some ?c\<rparr>"
    and ad: "args resumed_details_state
             = args0\<lparr>incremental := True, since := Some ?c, include_pull_details := True\<rparr>"
    by (simp_all add: r rd)
  have fl: "files resumed_state ?cwd = None" "files resumed_state (path_join ?cwd ''pulls'') = None"
    "files resumed_details_state ?cwd = None"
    "files resumed_details_state (path_join ?cwd ''pulls'') = None"
    by (simp_all add: r rd pc write_text_def incremental_state_def state0_def)
  have tr: "written (trace resumed_state) = [(''out/last_update'', Text ?c)]"
    "requested pulls_url (trace resumed_state) = []"
    "written (trace resumed_details_state) = [(''out/last_update'', Text ?c)]"
    "requested pulls_url (trace resumed_details_state) = []"
    by (simp_all add: r rd write_text_def incremental_state_def state0_def)
  have c1: "\<not> (skip_existing (args resumed_state) \<and> isdir (?cwd @ ''/pulls/.git'') resumed_state)"
    "\<not> (skip_existing (args resumed_details_state)
        \<and> isdir (?cwd @ ''/pulls/.git'') resumed_details_state)"
    by (simp_all add: a ad args0_def)
  have c2: "getitem a_repository ''full_name'' = Inr (JStr ''octocat/r'')"
    by (simp add: a_repository_def getitem_def)
  have c5: "pulls_url = ?rt @ ''/'' @ fmt pulls_env (JStr ''octocat/r'') @ ''/pulls''"
    by (simp add: pulls_url_def fmt_def)
  have au: "get_auth pulls_env (\<not> as_app (args resumed_state)) False resumed_state
            = (Inr None, resumed_state)"
    "get_auth pulls_env (\<not> as_app (args resumed_details_state)) False resumed_details_state
     = (Inr None, resumed_details_state)"
    by (simp_all add: a ad get_auth_def args0_def given_def)
  have ps: "pull_states resumed_state = [''open'', ''closed'']"
    "pull_states resumed_details_state = [''all'']"
    by (simp_all add: pull_states_def a ad args0_def)
  have flags: "\<not> include_pull_details (args resumed_state)"
    "include_pull_details (args resumed_details_state)"
    "\<not> (include_pull_comments (args resumed_state) \<or> include_pull_commits (args resumed_state)
        \<or> include_everything (args resumed_state))"
    "\<not> (include_pull_comments (args resumed_details_state)
        \<or> include_pull_commits (args resumed_details_state)
        \<or> include_everything (args resumed_details_state))"
    "as_app (args resumed_state) = False" "as_app (args resumed_details_state) = False"
    by (simp_all add: a ad args0_def)
  have srv: "srv pulls_env n rq
             = (if req_url rq = pulls_url then Returns (ok (JList pulls_page))
                else if req_url rq = pulls_url @ ''/7'' then Returns (ok (details_of new_pull))
                else Returns (ok (details_of cutoff_pull)))" for n rq
    by (simp add: pulls_env_def)
  have listing: "srv pulls_env n (built_request (int p) (pulls_query pull_state) pulls_url None app)
                 = Returns (ok (JList (?pg pull_state p)))"
    for n p app and pull_state :: string
    by (simp add: srv)
  have st: "stream_of (?pg pull_state) (?N pull_state) = pulls_page"
    for pull_state :: string
    by (simp add: stream_of_def)
  have stamps: "stamp new_pull = ''2021-06-01T00:00:00Z''" "stamp cutoff_pull = ?c"
    "stamp old_pull = ''2020-06-01T00:00:00Z''"
    by (simp_all add: stamp_def getitem_def new_pull_def cutoff_pull_def old_pull_def)
  have keys: "key_of new_pull = JInt 7" "key_of cutoff_pull = JInt 6"
    by (simp_all add: key_of_def getitem_def new_pull_def cutoff_pull_def)
  have is_pulls: "is_pull new_pull" "is_pull cutoff_pull" "is_pull old_pull"
    by (simp_all add: is_pull_def getitem_def new_pull_def cutoff_pull_def old_pull_def)
  have ord: "?c \<le> ''2021-06-01T00:00:00Z''" "''2020-06-01T00:00:00Z'' < ?c"
    "''2020-06-01T00:00:00Z'' \<le> ''2021-06-01T00:00:00Z''"
    by code_simp+
  have pulls: "is_pull x" if "x \<in> set (stream_of (?pg pull_state) (?N pull_state))"
    for x and pull_state :: string
    using that is_pulls unfolding st by (auto simp: pulls_page_def)
  have sr: "sorted_wrt (\<lambda>x y. stamp y \<le> stamp x) (replicate n new_pull)" for n
    by (induction n) simp_all
  have sorted: "sorted_wrt (\<lambda>x y. stamp y \<le> stamp x) (stream_of (?pg pull_state) (?N pull_state))"
    for pull_state :: string
    using ord unfolding st by (auto simp: pulls_page_def sorted_wrt_append stamps sr)
  have full: "length (?pg pull_state k) = 100 \<and> (\<forall>x \<in> set (?pg pull_state k). \<not> stamp x < ?c)"
    if "0 < k" "k < ?N pull_state" for k :: nat and pull_state :: string
    using that by simp
  have last: "0 < ?N pull_state
              \<and> (length (?pg pull_state (?N pull_state)) < 100
                 \<or> (\<exists>x \<in> set (?pg pull_state (?N pull_state)). stamp x < ?c))"
    for pull_state :: string
    using ord by (simp add: pulls_page_def stamps)
  have kept: "spec_kept ?c pulls_page = replicate 98 new_pull @ [cutoff_pull]"
    using ord by (simp add: spec_kept_def pulls_page_def stamps)
  have digits: "fmt pulls_env (JInt 7) = ''7''" "fmt pulls_env (JInt 6) = ''6''"
    by (simp_all add: fmt_def pulls_env_def) code_simp+
  have no_details: "srv pulls_env n (built_request 1 [] (pulls_url @ ''/'' @ fmt pulls_env (key_of x))
                                      None (as_app (args resumed_state)))
                    = Returns (ok (details_of x)) \<and> (\<exists>d. details_of x = JDict d)"
    if "include_pull_details (args resumed_state)" for x n
    using that flags(1) by simp
  have with_details: "srv pulls_env n (built_request 1 [] (pulls_url @ ''/'' @ fmt pulls_env (key_of x))
                                        None (as_app (args resumed_details_state)))
                      = Returns (ok (details_of x)) \<and> (\<exists>d. details_of x = JDict d)"
    if "x \<in> set (spec_kept ?c (stream_of (?pg ''all'') (?N ''all'')))" for x n
  proof -
    from that have "x = new_pull \<or> x = cutoff_pull" unfolding st kept by auto
    then show ?thesis
      by (auto simp: keys digits srv details_of_def)
  qed
  have rep: "spec_merged f (replicate n new_pull @ xs) ((JInt 7, f new_pull) # d)
             = spec_merged f xs ((JInt 7, f new_pull) # d)" for n xs f d
    by (induction n) (simp_all add: spec_merged_def keys key_eq_def)
  have first: "spec_merged f (replicate 98 new_pull @ xs) []
               = spec_merged f xs [(JInt 7, f new_pull)]" for f xs
  proof -
    have "spec_merged f (replicate 98 new_pull @ xs) []
          = spec_merged f (replicate 97 new_pull @ xs) [(JInt 7, f new_pull)]"
      by (simp add: spec_merged_def keys eval_nat_numeral del: replicate_Suc)
    then show ?thesis by (simp add: rep)
  qed
  have one: "spec_merged f [cutoff_pull] ((JInt 7, f new_pull) # d)
             = (JInt 7, f new_pull) # spec_merged f [cutoff_pull] d" for f d
    by (simp add: spec_merged_def keys key_eq_def)
  have k_list: "kept_pulls ?c (\<lambda>x. x) ?pg ?N [''open'', ''closed'']
                = [(JInt 7, new_pull), (JInt 6, cutoff_pull)]"
  proof -
    let ?K = "replicate 98 new_pull @ [cutoff_pull]"
    have m1: "spec_merged (\<lambda>x. x) ?K [] = [(JInt 7, new_pull), (JInt 6, cutoff_pull)]"
      using first[where f = "\<lambda>x. x" and xs = "[cutoff_pull]"]
      by (simp add: spec_merged_def keys key_eq_def)
    have m2: "spec_merged (\<lambda>x. x) ?K [(JInt 7, new_pull), (JInt 6, cutoff_pull)]
              = [(JInt 7, new_pull), (JInt 6, cutoff_pull)]"
      using rep[where f = "\<lambda>x. x" and n = 98 and xs = "[cutoff_pull]"
          and d = "[(JInt 6, cutoff_pull)]"]
      by (simp add: spec_merged_def keys key_eq_def)
    show ?thesis
      unfolding kept_pulls_def by (simp add: st kept m1 m2)
  qed
  have k_details: "kept_pulls ?c details_of ?pg ?N [''all'']
                   = [(JInt 7, details_of new_pull), (JInt 6, details_of cutoff_pull)]"
    unfolding kept_pulls_def
    by (simp add: st kept first) (simp add: spec_merged_def keys key_eq_def)
  note list_run =
    cutoff_round_trip_bounds_pulls[where pg = ?pg and N = ?N and detail = details_of
      and auth = None and ?s3.0 = resumed_state and e = pulls_env and t = pulls_url
      and repo_cwd = ?cwd and repos_template = ?rt and repository = a_repository,
      OF h1 refl refl h4(1) h5 h6 h7 c1(1) c2 fl(1,2) c5 au(1) au(1) listing pulls sorted full
        last no_details refl refl]
  note details_run =
    cutoff_round_trip_bounds_pulls[where pg = ?pg and N = ?N and detail = details_of
      and auth = None and ?s3.0 = resumed_details_state and e = pulls_env and t = pulls_url
      and repo_cwd = ?cwd and repos_template = ?rt and repository = a_repository,
      OF h1 refl h4(3,2) h5d h6 h7 c1(2) c2 fl(3,4) c5 au(2) au(2) listing pulls sorted full
        last with_details refl refl]
  from list_run flags(3)
  obtain s' where
    l: "backup_pulls pulls_env ?cwd a_repository ?rt resumed_state = Some (Inr (), s')"
    "written (trace s') = [(''out/last_update'', Text ?c),
                           (''out/repositories/r/pulls/7.json'', Json new_pull),
                           (''out/repositories/r/pulls/6.json'', Json cutoff_pull)]"
    "requested pulls_url (trace s')
     = [built_request 1 (pulls_query ''open'') pulls_url None False,
        built_request 1 (pulls_query ''closed'') pulls_url None False]"
    by (auto simp: digits k_list ps tr pc flags(1,5))
  from details_run flags(4)
  obtain s'' where
    d: "backup_pulls pulls_env ?cwd a_repository ?rt resumed_details_state = Some (Inr (), s'')"
    "written (trace s'') = [(''out/last_update'', Text ?c),
                            (''out/repositories/r/pulls/7.json'', Json (details_of new_pull)),
                            (''out/repositories/r/pulls/6.json'', Json (details_of cutoff_pull))]"
    "requested pulls_url (trace s'')
     = [built_request 1 (pulls_query ''all'') pulls_url None False]"
    by (auto simp: digits k_details ps tr pc flags(2,6))
  from l d show ?thesis
    by (simp add: returned_def effects_def a ad)
qed

end
